theory Spec2Isabelle
  imports Complex_Main
begin

section \<open>Fleet telematics simulation (class FleetTelematicsData)\<close>

text \<open>
  JavaScript numbers are modelled as \<^typ>\<open>real\<close>, whole-number counters produced by
  \<^verbatim>\<open>Math.floor\<close> as \<^typ>\<open>int\<close>. Every call of \<^verbatim>\<open>Math.random()\<close> is an
  explicit input: one named field per call site, collected in a record that is handed to
  the function making the calls. \<^verbatim>\<open>Math.random()\<close> returns a number \<open>r\<close> with
  \<open>0 \<le> r < 1\<close>; theorems that depend on that range assume it.
  \<^verbatim>\<open>Date.now()\<close> is an input as well.
\<close>

subsection \<open>Data\<close>

datatype runState = Driving | Idle

record location =
  lat :: real
  lng :: real
  speed :: real
  heading :: real
  altitude :: real

record fuel =
  level :: real
  capacity :: real
  efficiency :: real
  consumption :: real
  lastFill :: real

record engine =
  rpm :: real
  temperature :: real
  oilPressure :: real
  voltage :: real
  faultCodes :: "string list"
  hours :: int

record driver =
  driverId :: string
  score :: real
  harshAcceleration :: int
  harshBraking :: int
  harshCornering :: int
  idleTime :: real
  drivingTime :: real

record status =
  state :: runState
  route :: string
  nextMaintenance :: real
  lastUpdate :: real
  connected :: bool

record vehicle =
  vid :: string
  vtype :: string
  vlocation :: location
  vfuel :: fuel
  vengine :: engine
  vdriver :: driver
  vstatus :: status

text \<open>The random numbers drawn while one vehicle is created, in source order.\<close>

record init_rnd =
  i_lat :: real
  i_lng :: real
  i_speed :: real
  i_heading :: real
  i_altitude :: real
  i_level :: real
  i_lastFill :: real
  i_rpm :: real
  i_temperature :: real
  i_oilPressure :: real
  i_voltage :: real
  i_hours :: real
  i_driverId :: real
  i_score :: real
  i_harshAcceleration :: real
  i_harshBraking :: real
  i_harshCornering :: real
  i_idleTime :: real
  i_drivingTime :: real
  i_state :: real
  i_nextMaintenance :: real
  i_connected :: real

text \<open>
  The random numbers one vehicle may draw during one tick, one field per call site, and
  the clock value read at the end of its update.
\<close>

record tick_rnd =
  t_speed :: real
  t_headingGate :: real
  t_heading :: real
  t_rpm :: real
  t_temperature :: real
  t_oilPressure :: real
  t_idleRpm :: real
  t_voltage :: real
  t_faultGate :: real
  t_faultPick :: real
  t_harshGate :: real
  t_harshType :: real
  t_stateGate :: real
  t_connectedGate :: real
  t_now :: real

subsection \<open>String helpers of the id templates\<close>

definition digit_char :: "nat \<Rightarrow> char" where
  "digit_char d = char_of (48 + d)"

fun decimal :: "nat \<Rightarrow> string" where
  "decimal n = (if n < 10 then [digit_char n] else decimal (n div 10) @ [digit_char (n mod 10)])"

declare decimal.simps [simp del]

definition padStart :: "nat \<Rightarrow> char \<Rightarrow> string \<Rightarrow> string" where
  "padStart w c s = replicate (w - length s) c @ s"

definition mkVehicleId :: "nat \<Rightarrow> string" where
  "mkVehicleId i = ''VH-'' @ padStart 3 (CHR ''0'') (decimal (i + 1))"

text \<open>The remainder operator \<^verbatim>\<open>%\<close> on numbers: the result has the sign of the dividend.\<close>

definition trunc :: "real \<Rightarrow> int" where
  "trunc x = (if 0 \<le> x then \<lfloor>x\<rfloor> else \<lceil>x\<rceil>)"

definition js_rem :: "real \<Rightarrow> real \<Rightarrow> real" where
  "js_rem a b = a - b * of_int (trunc (a / b))"

subsection \<open>initializeFleet\<close>

definition vehicleTypes :: "(string \<times> real \<times> real) list" where
  "vehicleTypes =
     [(''Truck'', 200, 8.5), (''Van'', 80, 12.0), (''Car'', 60, 15.0), (''Bus'', 300, 6.0)]"

definition routes :: "string list" where
  "routes = [''Highway 401 E'', ''Downtown Core'', ''Industrial Zone'', ''Airport Route'',
     ''Suburban Loop'']"

definition updateInterval :: real where
  "updateInterval = 1000"

definition newVehicle :: "real \<Rightarrow> init_rnd \<Rightarrow> nat \<Rightarrow> vehicle" where
  "newVehicle now r i =
     (case vehicleTypes ! (i mod length vehicleTypes) of (ty, fl, eff) \<Rightarrow>
      \<lparr> vid = mkVehicleId i,
        vtype = ty,
        vlocation = \<lparr> lat = 43.6532 + (i_lat r - 0.5) * 0.1,
                      lng = - 79.3832 + (i_lng r - 0.5) * 0.1,
                      speed = i_speed r * 80 + 20,
                      heading = i_heading r * 360,
                      altitude = 76 + i_altitude r * 50 \<rparr>,
        vfuel = \<lparr> level = fl * (0.3 + i_level r * 0.6),
                  capacity = fl,
                  efficiency = eff,
                  consumption = 0,
                  lastFill = now - i_lastFill r * 86400000 \<rparr>,
        vengine = \<lparr> rpm = 1500 + i_rpm r * 2000,
                    temperature = 85 + i_temperature r * 15,
                    oilPressure = 30 + i_oilPressure r * 20,
                    voltage = 12.5 + i_voltage r * 1.5,
                    faultCodes = [],
                    hours = \<lfloor>i_hours r * 5000\<rfloor> + 1000 \<rparr>,
        vdriver = \<lparr> driverId = ''DR-'' @ padStart 3 (CHR ''0'')
                               (decimal (nat (\<lfloor>i_driverId r * 100\<rfloor> + 1))),
                    score = 75 + i_score r * 20,
                    harshAcceleration = \<lfloor>i_harshAcceleration r * 5\<rfloor>,
                    harshBraking = \<lfloor>i_harshBraking r * 3\<rfloor>,
                    harshCornering = \<lfloor>i_harshCornering r * 2\<rfloor>,
                    idleTime = of_int \<lfloor>i_idleTime r * 120\<rfloor>,
                    drivingTime = of_int (\<lfloor>i_drivingTime r * 480\<rfloor> + 60) \<rparr>,
        vstatus = \<lparr> state = (if i_state r > 0.8 then Idle else Driving),
                    route = routes ! (i mod length routes),
                    nextMaintenance = of_int (\<lfloor>i_nextMaintenance r * 5000\<rfloor> + 500),
                    lastUpdate = now,
                    connected = (i_connected r > 0.05) \<rparr> \<rparr>)"

text \<open>
  The fleet is a JavaScript \<^verbatim>\<open>Map\<close> from id to vehicle. Its iteration order is the
  insertion order and the twelve ids are pairwise distinct, so it is modelled as the list
  of its values in insertion order.
\<close>

definition initializeFleet :: "real \<Rightarrow> (nat \<Rightarrow> init_rnd) \<Rightarrow> vehicle list" where
  "initializeFleet now r = map (\<lambda>i. newVehicle now (r i) i) [0..<12]"

subsection \<open>The per-tick update rules\<close>

definition updateVehicleLocation :: "tick_rnd \<Rightarrow> vehicle \<Rightarrow> vehicle" where
  "updateVehicleLocation r v =
     (if state (vstatus v) = Driving then
        (let l = vlocation v;
             speedKmh = speed l;
             speedMs = speedKmh / 3.6;
             deltaTime = updateInterval / 1000;
             distance = speedMs * deltaTime;
             latDelta = (distance / 111000) * cos (heading l * pi / 180);
             lngDelta = (distance / 111000) * sin (heading l * pi / 180);
             l1 = l\<lparr> lat := lat l + latDelta, lng := lng l + lngDelta \<rparr>;
             l2 = l1\<lparr> speed := speed l1 + (t_speed r - 0.5) * 5 \<rparr>;
             l3 = l2\<lparr> speed := max 10 (min 100 (speed l2)) \<rparr>;
             l4 = (if t_headingGate r < 0.1 then
                     (let h = heading l3 + (t_heading r - 0.5) * 30
                      in l3\<lparr> heading := js_rem (h + 360) 360 \<rparr>)
                   else l3)
         in v\<lparr> vlocation := l4 \<rparr>)
      else v)"

definition updateFuelData :: "vehicle \<Rightarrow> vehicle" where
  "updateFuelData v =
     (if state (vstatus v) = Driving then
        (let f = vfuel v;
             consumption' = speed (vlocation v) / efficiency f / 3600;
             deltaTime = updateInterval / 1000;
             fuelUsed = consumption' * deltaTime
         in v\<lparr> vfuel := f\<lparr> level := max 0 (level f - fuelUsed),
                            consumption := consumption' * 3600 \<rparr> \<rparr>)
      else v\<lparr> vfuel := (vfuel v)\<lparr> consumption := 0 \<rparr> \<rparr>)"

definition faultCatalog :: "string list" where
  "faultCatalog = [''P0171'', ''P0300'', ''P0420'', ''P0128'', ''P0442'']"

definition updateEngineData :: "tick_rnd \<Rightarrow> vehicle \<Rightarrow> vehicle" where
  "updateEngineData r v =
     (let e = vengine v;
          e1 = (if state (vstatus v) = Driving then
                  (let baseRpm = 800 + (speed (vlocation v) / 100) * 2500;
                       a = e\<lparr> rpm := baseRpm + (t_rpm r - 0.5) * 200 \<rparr>;
                       b = a\<lparr> temperature := temperature a + (t_temperature r - 0.5) * 2 \<rparr>;
                       c = b\<lparr> temperature := max 80 (min 105 (temperature b)) \<rparr>;
                       d = c\<lparr> oilPressure := oilPressure c + (t_oilPressure r - 0.5) * 2 \<rparr>
                   in d\<lparr> oilPressure := max 25 (min 55 (oilPressure d)) \<rparr>)
                else
                  e\<lparr> rpm := 800 + (t_idleRpm r - 0.5) * 100,
                     temperature := max 85 (temperature e - 0.5) \<rparr>);
          e2 = e1\<lparr> voltage := voltage e1 + (t_voltage r - 0.5) * 0.1 \<rparr>;
          e3 = e2\<lparr> voltage := max 12.0 (min 14.5 (voltage e2)) \<rparr>;
          e4 = (if t_faultGate r < 0.001 \<and> length (faultCodes e3) < 3 then
                  (let newFault = faultCatalog ! nat \<lfloor>t_faultPick r * of_nat (length faultCatalog)\<rfloor>
                   in if newFault \<notin> set (faultCodes e3)
                      then e3\<lparr> faultCodes := faultCodes e3 @ [newFault] \<rparr>
                      else e3)
                else e3)
      in v\<lparr> vengine := e4 \<rparr>)"

definition updateDriverBehavior :: "tick_rnd \<Rightarrow> vehicle \<Rightarrow> vehicle" where
  "updateDriverBehavior r v =
     (let d = vdriver v;
          d1 = (if state (vstatus v) = Driving then
                  (let a = (if t_harshGate r < 0.01 then
                              (let eventType = t_harshType r
                               in if eventType < 0.4
                                  then d\<lparr> harshAcceleration := harshAcceleration d + 1 \<rparr>
                                  else if eventType < 0.7
                                  then d\<lparr> harshBraking := harshBraking d + 1 \<rparr>
                                  else d\<lparr> harshCornering := harshCornering d + 1 \<rparr>)
                            else d)
                   in a\<lparr> drivingTime := drivingTime a + updateInterval / 60000 \<rparr>)
                else d\<lparr> idleTime := idleTime d + updateInterval / 60000 \<rparr>);
          events = harshAcceleration d1 + harshBraking d1 + harshCornering d1;
          hours' = drivingTime d1 / 60;
          eventsPerHour = (if hours' > 0 then of_int events / hours' else 0)
      in v\<lparr> vdriver := d1\<lparr> score := max 50 (100 - eventsPerHour * 10) \<rparr> \<rparr>)"

definition updateVehicleStatus :: "tick_rnd \<Rightarrow> vehicle \<Rightarrow> vehicle" where
  "updateVehicleStatus r v =
     (let s = vstatus v;
          s1 = (if t_stateGate r < 0.01
                then s\<lparr> state := (if state s = Driving then Idle else Driving) \<rparr>
                else s);
          s2 = (if t_connectedGate r < 0.001 then s1\<lparr> connected := \<not> connected s1 \<rparr> else s1);
          s3 = (if state s2 = Driving then
                  (let a = s2\<lparr> nextMaintenance :=
                                 nextMaintenance s2 - speed (vlocation v) * (updateInterval / 3600000) \<rparr>
                   in a\<lparr> nextMaintenance := max 0 (nextMaintenance a) \<rparr>)
                else s2)
      in v\<lparr> vstatus := s3 \<rparr>)"

text \<open>The body of the \<^verbatim>\<open>forEach\<close> of \<^verbatim>\<open>updateVehicleData\<close>, for one vehicle.\<close>

definition updateVehicle :: "tick_rnd \<Rightarrow> vehicle \<Rightarrow> vehicle" where
  "updateVehicle r v =
     (let v1 = updateVehicleLocation r v;
          v2 = updateFuelData v1;
          v3 = updateEngineData r v2;
          v4 = updateDriverBehavior r v3;
          v5 = updateVehicleStatus r v4
      in v5\<lparr> vstatus := (vstatus v5)\<lparr> lastUpdate := t_now r \<rparr> \<rparr>)"

text \<open>
  One tick: every vehicle is updated once, in fleet order; \<open>r i\<close> holds the random numbers
  of the vehicle at position \<open>i\<close>.
\<close>

fun updateFrom :: "(nat \<Rightarrow> tick_rnd) \<Rightarrow> nat \<Rightarrow> vehicle list \<Rightarrow> vehicle list" where
  "updateFrom r i [] = []"
| "updateFrom r i (v # vs) = updateVehicle (r i) v # updateFrom r (Suc i) vs"

definition updateVehicleData :: "(nat \<Rightarrow> tick_rnd) \<Rightarrow> vehicle list \<Rightarrow> vehicle list" where
  "updateVehicleData r vs = updateFrom r 0 vs"

text \<open>\<open>n\<close> ticks from a fleet; \<open>r k\<close> holds the random numbers of tick \<open>k\<close>.\<close>

fun simulate :: "(nat \<Rightarrow> nat \<Rightarrow> tick_rnd) \<Rightarrow> nat \<Rightarrow> vehicle list \<Rightarrow> vehicle list" where
  "simulate r 0 vs = vs"
| "simulate r (Suc n) vs = updateVehicleData (r n) (simulate r n vs)"

text \<open>The same for one vehicle at fleet position \<open>i\<close>.\<close>

fun simulateVehicle :: "(nat \<Rightarrow> tick_rnd) \<Rightarrow> nat \<Rightarrow> vehicle \<Rightarrow> vehicle" where
  "simulateVehicle r 0 v = v"
| "simulateVehicle r (Suc n) v = updateVehicle (r n) (simulateVehicle r n v)"

subsection \<open>getFleetSummary and getDisplayMetrics\<close>

record summary =
  s_total :: nat
  s_active :: nat
  s_idle :: int
  s_connected :: nat
  s_avgSpeed :: real
  s_totalFuel :: real
  s_avgDriverScore :: real
  s_maintenanceAlerts :: nat
  s_faultCodes :: nat

text \<open>
  \<open>avgDriverScore\<close> divides by the fleet size; for an empty fleet JavaScript yields
  \<^verbatim>\<open>NaN\<close> where the model yields \<open>0\<close>. No function modelled here reads that field.
\<close>

definition getFleetSummary :: "vehicle list \<Rightarrow> summary" where
  "getFleetSummary vehicles =
     (let activeVehicles = filter (\<lambda>v. state (vstatus v) = Driving) vehicles;
          connectedVehicles = filter (\<lambda>v. connected (vstatus v)) vehicles
      in \<lparr> s_total = length vehicles,
           s_active = length activeVehicles,
           s_idle = int (length vehicles) - int (length activeVehicles),
           s_connected = length connectedVehicles,
           s_avgSpeed = (if length activeVehicles > 0
                         then foldl (\<lambda>sum v. sum + speed (vlocation v)) 0 activeVehicles
                              / of_nat (length activeVehicles)
                         else 0),
           s_totalFuel = foldl (\<lambda>sum v. sum + level (vfuel v)) 0 vehicles,
           s_avgDriverScore = foldl (\<lambda>sum v. sum + score (vdriver v)) 0 vehicles
                              / of_nat (length vehicles),
           s_maintenanceAlerts = length (filter (\<lambda>v. nextMaintenance (vstatus v) < 500) vehicles),
           s_faultCodes = foldl (\<lambda>sum v. sum + length (faultCodes (vengine v))) 0 vehicles \<rparr>)"

record metric =
  m_type :: string
  m_vehicleId :: string
  m_label :: string
  m_value :: string
  m_detail :: string
  m_status :: string
  m_priority :: string

text \<open>
  The number formatting of the template strings is the JavaScript runtime's; it is a
  parameter: \<open>toFixed d x\<close> for \<^verbatim>\<open>x.toFixed(d)\<close> and \<open>toStr x\<close> for \<^verbatim>\<open>`${x}`\<close>.
\<close>

record js_fmt =
  toFixed :: "nat \<Rightarrow> real \<Rightarrow> string"
  toStr :: "real \<Rightarrow> string"

definition stateStr :: "runState \<Rightarrow> string" where
  "stateStr st = (case st of Driving \<Rightarrow> ''driving'' | Idle \<Rightarrow> ''idle'')"

definition locationMetric :: "js_fmt \<Rightarrow> vehicle \<Rightarrow> metric" where
  "locationMetric f v =
     \<lparr> m_type = ''location'',
       m_vehicleId = vid v,
       m_label = vid v,
       m_value = toFixed f 0 (speed (vlocation v)) @ '' km/h'',
       m_detail = toFixed f 4 (lat (vlocation v)) @ '', '' @ toFixed f 4 (lng (vlocation v)),
       m_status = stateStr (state (vstatus v)),
       m_priority = (if state (vstatus v) = Driving then ''high'' else ''normal'') \<rparr>"

definition fuelMetric :: "js_fmt \<Rightarrow> vehicle \<Rightarrow> metric" where
  "fuelMetric f v =
     (let fuelPercent = level (vfuel v) / capacity (vfuel v) * 100
      in \<lparr> m_type = ''fuel'',
           m_vehicleId = vid v,
           m_label = vtype v,
           m_value = toFixed f 0 fuelPercent @ ''%'',
           m_detail = toFixed f 1 (level (vfuel v)) @ ''L / '' @ toStr f (capacity (vfuel v)) @ ''L'',
           m_status = (if fuelPercent < 20 then ''critical''
                       else if fuelPercent < 40 then ''warning'' else ''normal''),
           m_priority = (if fuelPercent < 20 then ''critical'' else ''normal'') \<rparr>)"

definition engineMetric :: "js_fmt \<Rightarrow> vehicle \<Rightarrow> metric" where
  "engineMetric f v =
     \<lparr> m_type = ''engine'',
       m_vehicleId = vid v,
       m_label = ''Engine'',
       m_value = toFixed f 0 (temperature (vengine v)) @ [CHR 0xB0] @ ''C'',
       m_detail = toFixed f 0 (rpm (vengine v)) @ '' RPM'',
       m_status = (if temperature (vengine v) > 100 then ''warning'' else ''normal''),
       m_priority = (if length (faultCodes (vengine v)) > 0 then ''high'' else ''normal'') \<rparr>"

definition driverMetric :: "js_fmt \<Rightarrow> vehicle \<Rightarrow> metric" where
  "driverMetric f v =
     \<lparr> m_type = ''driver'',
       m_vehicleId = vid v,
       m_label = ''Driver '' @ driverId (vdriver v),
       m_value = toFixed f 0 (score (vdriver v)),
       m_detail = toFixed f 0 (drivingTime (vdriver v)) @ ''h'',
       m_status = (if score (vdriver v) < 70 then ''warning'' else ''normal''),
       m_priority = (if score (vdriver v) < 60 then ''high'' else ''normal'') \<rparr>"

definition fleetMetric :: "vehicle list \<Rightarrow> metric" where
  "fleetMetric vehicles =
     (let summary = getFleetSummary vehicles
      in \<lparr> m_type = ''fleet'',
           m_vehicleId = ''FLEET'',
           m_label = ''Fleet Status'',
           m_value = decimal (s_active summary) @ ''/'' @ decimal (s_total summary),
           m_detail = decimal (s_connected summary) @ '' connected'',
           m_status = (if real (s_connected summary) < real (s_total summary) * 0.9
                       then ''warning'' else ''normal''),
           m_priority = ''high'' \<rparr>)"

text \<open>The \<^verbatim>\<open>forEach\<close> pushes four metrics per vehicle onto the array built so far.\<close>

definition pushVehicleMetrics :: "js_fmt \<Rightarrow> metric list \<Rightarrow> vehicle \<Rightarrow> metric list" where
  "pushVehicleMetrics f metrics v =
     (((metrics @ [locationMetric f v]) @ [fuelMetric f v]) @ [engineMetric f v]) @ [driverMetric f v]"

definition getDisplayMetrics :: "js_fmt \<Rightarrow> vehicle list \<Rightarrow> metric list" where
  "getDisplayMetrics f vehicles = foldl (pushVehicleMetrics f) [] vehicles @ [fleetMetric vehicles]"

section \<open>The simulation of class Particles\<close>

text \<open>
  Class \<^verbatim>\<open>Particles\<close>, the one the main scene instantiates, carries a simulation of its
  own: fifteen vehicles with an \<^verbatim>\<open>ignition\<close> flag instead of a run state, created by
  \<^verbatim>\<open>initFleetData\<close> and advanced once a second by its \<^verbatim>\<open>updateVehicleData\<close>. Location and
  fuel have the fields of the other simulation; \<^verbatim>\<open>previousSpeed\<close> is a property the first
  tick with the ignition on adds to a vehicle, \<open>None\<close> while it is \<^verbatim>\<open>undefined\<close>.
\<close>

record l_engine =
  le_temperature :: real
  le_rpm :: real
  le_load :: real
  le_runtime :: real
  le_faultCodes :: "string list"

record l_driver =
  ld_id :: string
  ld_score :: real
  ld_drivingTime :: real
  ld_violations :: int

record l_status =
  ls_connected :: bool
  ls_ignition :: bool
  ls_lastUpdate :: real
  ls_nextMaintenance :: real

record l_vehicle =
  lv_id :: string
  lv_type :: string
  lv_location :: location
  lv_fuel :: fuel
  lv_engine :: l_engine
  lv_driver :: l_driver
  lv_status :: l_status
  lv_previousSpeed :: "real option"

text \<open>The random numbers of one vehicle's creation and of one vehicle's tick, by call site.\<close>

record l_init_rnd =
  li_lat :: real
  li_lng :: real
  li_speed :: real
  li_heading :: real
  li_altitude :: real
  li_level :: real
  li_lastFill :: real
  li_temperature :: real
  li_rpm :: real
  li_load :: real
  li_runtime :: real
  li_driverId :: real
  li_score :: real
  li_drivingTime :: real
  li_violations :: real
  li_connected :: real
  li_ignition :: real
  li_lastUpdate :: real
  li_nextMaintenance :: real

record l_tick_rnd =
  lt_speed :: real
  lt_heading :: real
  lt_temperature :: real
  lt_rpm :: real
  lt_load :: real
  lt_ignitionGate :: real
  lt_now :: real

subsection \<open>initFleetData\<close>

definition legacyVehicleTypes :: "(string \<times> real \<times> real) list" where
  "legacyVehicleTypes =
     [(''truck'', 300, 8.5), (''van'', 80, 12.0), (''car'', 60, 15.0), (''bus'', 200, 6.0)]"

definition legacyNewVehicle :: "real \<Rightarrow> l_init_rnd \<Rightarrow> nat \<Rightarrow> l_vehicle" where
  "legacyNewVehicle now r i =
     (case legacyVehicleTypes ! (i mod length legacyVehicleTypes) of (ty, fl, eff) \<Rightarrow>
      \<lparr> lv_id = mkVehicleId i,
        lv_type = ty,
        lv_location = \<lparr> lat = 43.6532 + (li_lat r - 0.5) * 0.1,
                        lng = - 79.3832 + (li_lng r - 0.5) * 0.1,
                        speed = li_speed r * 80 + 20,
                        heading = li_heading r * 360,
                        altitude = 76 + li_altitude r * 50 \<rparr>,
        lv_fuel = \<lparr> level = fl * (0.3 + li_level r * 0.6),
                    capacity = fl,
                    efficiency = eff,
                    consumption = 0,
                    lastFill = now - li_lastFill r * 86400000 \<rparr>,
        lv_engine = \<lparr> le_temperature = 85 + li_temperature r * 20,
                      le_rpm = 800 + li_rpm r * 2000,
                      le_load = li_load r * 100,
                      le_runtime = li_runtime r * 10000,
                      le_faultCodes = [] \<rparr>,
        lv_driver = \<lparr> ld_id = ''DR-'' @ padStart 3 (CHR ''0'')
                               (decimal (nat (\<lfloor>li_driverId r * 999\<rfloor> + 1))),
                      ld_score = 60 + li_score r * 40,
                      ld_drivingTime = li_drivingTime r * 12,
                      ld_violations = \<lfloor>li_violations r * 5\<rfloor> \<rparr>,
        lv_status = \<lparr> ls_connected = (li_connected r > 0.1),
                      ls_ignition = (li_ignition r > 0.3),
                      ls_lastUpdate = now - li_lastUpdate r * 300000,
                      ls_nextMaintenance = 500 + li_nextMaintenance r * 2000 \<rparr>,
        lv_previousSpeed = None \<rparr>)"

definition initFleetData :: "real \<Rightarrow> (nat \<Rightarrow> l_init_rnd) \<Rightarrow> l_vehicle list" where
  "initFleetData now r = map (\<lambda>i. legacyNewVehicle now (r i) i) [0..<15]"

subsection \<open>updateVehicleData\<close>

text \<open>
  The body of the \<^verbatim>\<open>forEach\<close>, in the order of the source: location, fuel, engine,
  driver, the ignition gate, the time stamp. Every rule reads the ignition flag of the
  start of the tick, and the fuel, engine and driver rules read the speed the location
  rule has just written. \<^verbatim>\<open>previousSpeed || speed\<close> is the speed itself when
  \<^verbatim>\<open>previousSpeed\<close> is \<^verbatim>\<open>undefined\<close> or \<open>0\<close>.
\<close>

definition legacyUpdateVehicle :: "l_tick_rnd \<Rightarrow> l_vehicle \<Rightarrow> l_vehicle" where
  "legacyUpdateVehicle r v =
     (let ignition = ls_ignition (lv_status v);
          l = lv_location v;
          l' = (if ignition then
                  (let a = l\<lparr> speed := max 0 (speed l + (lt_speed r - 0.5) * 10) \<rparr>;
                       b = a\<lparr> heading := heading a + (lt_heading r - 0.5) * 20 \<rparr>;
                       speedKmh = speed b;
                       speedMs = speedKmh / 3.6;
                       deltaTime = 1;
                       distance = speedMs * deltaTime;
                       headingRad = heading b * pi / 180;
                       c = b\<lparr> lat := lat b + (distance * cos headingRad) / 111000 \<rparr>
                   in c\<lparr> lng := lng c + (distance * sin headingRad)
                                         / (111000 * cos (lat c * pi / 180)) \<rparr>)
                else l\<lparr> speed := 0 \<rparr>);
          f = lv_fuel v;
          f' = (if ignition \<and> speed l' > 0 then
                  (let consumption' = (speed l' / 100) * efficiency f * (1 / 3600)
                   in f\<lparr> level := max 0 (level f - consumption'),
                         consumption := consumption f + consumption' \<rparr>)
                else f);
          e = lv_engine v;
          e' = (if ignition then
                  e\<lparr> le_temperature := min 120 (max 80 (le_temperature e + (lt_temperature r - 0.5) * 2)),
                     le_rpm := 800 + (speed l' / 100) * 2000 + (lt_rpm r - 0.5) * 200,
                     le_load := (speed l' / 100) * 80 + lt_load r * 20,
                     le_runtime := le_runtime e + 1 / 3600 \<rparr>
                else
                  e\<lparr> le_temperature := max 20 (le_temperature e - 0.5),
                     le_rpm := 0,
                     le_load := 0 \<rparr>);
          d = lv_driver v;
          d1 = (if ignition then
                  (let a = d\<lparr> ld_drivingTime := ld_drivingTime d + 1 / 3600 \<rparr>;
                       b = (if speed l' > 80 then a\<lparr> ld_score := max 0 (ld_score a - 0.1) \<rparr> else a);
                       previous = (case lv_previousSpeed v of
                                     None \<Rightarrow> speed l'
                                   | Some p \<Rightarrow> if p = 0 then speed l' else p)
                   in if \<bar>speed l' - previous\<bar> > 20
                      then b\<lparr> ld_score := max 0 (ld_score b - 0.2) \<rparr> else b)
                else d);
          p' = (if ignition then Some (speed l') else lv_previousSpeed v);
          s = lv_status v;
          s1 = (if lt_ignitionGate r < 0.001 then s\<lparr> ls_ignition := \<not> ls_ignition s \<rparr> else s);
          s2 = s1\<lparr> ls_lastUpdate := lt_now r \<rparr>
      in v\<lparr> lv_location := l', lv_fuel := f', lv_engine := e', lv_driver := d1,
            lv_status := s2, lv_previousSpeed := p' \<rparr>)"

text \<open>The fleet is a \<^verbatim>\<open>Map\<close> with pairwise distinct ids, visited in insertion order.\<close>

fun legacyUpdateFrom :: "(nat \<Rightarrow> l_tick_rnd) \<Rightarrow> nat \<Rightarrow> l_vehicle list \<Rightarrow> l_vehicle list" where
  "legacyUpdateFrom r i [] = []"
| "legacyUpdateFrom r i (v # vs) = legacyUpdateVehicle (r i) v # legacyUpdateFrom r (Suc i) vs"

definition legacyUpdateVehicleData :: "(nat \<Rightarrow> l_tick_rnd) \<Rightarrow> l_vehicle list \<Rightarrow> l_vehicle list" where
  "legacyUpdateVehicleData r vs = legacyUpdateFrom r 0 vs"

section \<open>The pooled overlay (class ParticlesOptimized)\<close>

subsection \<open>Data\<close>

type_synonym vec3 = "real \<times> real \<times> real"

text \<open>
  What \<^verbatim>\<open>element.innerHTML\<close> holds: the placeholder written at creation, a card with
  header line, status colour, value and detail, or the default card of
  \<^verbatim>\<open>updateElementContent\<close>.
\<close>

datatype html = Placeholder | Card string string string string | DefaultCard

text \<open>
  A pooled object with the parts of its DOM element and of its mesh that the methods
  read or write. The same object is referenced from \<^verbatim>\<open>textElementPool\<close> and from one
  of \<^verbatim>\<open>activeElements\<close> and \<^verbatim>\<open>inactiveElements\<close>, so objects live in a store
  indexed by reference and the three arrays hold references.
\<close>

record pooledObject =
  isActive :: bool
  o_lastUpdate :: real
  el_display :: string
  el_opacity :: real
  el_transform :: "(real \<times> real) option"
  el_innerHTML :: html
  mesh_position :: vec3
  ud_originalPosition :: vec3
  ud_life :: real
  ud_metricIndex :: nat
  ud_isVisible :: bool

type_synonym ref = nat

text \<open>
  The browser facts \<^verbatim>\<open>getOptimalTextCount\<close> reads: whether the user agent matches
  the mobile pattern, and \<^verbatim>\<open>navigator.hardwareConcurrency\<close> (\<open>None\<close> when undefined).
\<close>

record navigator =
  isMobile :: bool
  hardwareConcurrency :: "nat option"

text \<open>A number that may be \<^verbatim>\<open>Infinity\<close> or \<^verbatim>\<open>NaN\<close>, as a division by zero yields.\<close>

datatype jsnum = Num int | PosInf | NegInf | NaN

record particles =
  nav :: navigator
  textCount :: int
  poolSize :: nat
  cullingEnabled :: bool
  store :: "ref \<Rightarrow> pooledObject"
  textElementPool :: "ref list"
  activeElements :: "ref list"
  inactiveElements :: "ref list"
  vehicles :: "vehicle list"
  currentMetrics :: "metric list"
  frameCount :: nat
  lastFPSCheck :: real
  currentFPS :: jsnum

text \<open>The random numbers drawn by \<^verbatim>\<open>createMeshForElement\<close> that are read later.\<close>

record mesh_rnd =
  c_radius :: real
  c_theta :: real
  c_phi :: real
  c_life :: real

subsection \<open>Construction\<close>

definition getOptimalTextCount :: "navigator \<Rightarrow> int" where
  "getOptimalTextCount n =
     (let isLowEnd = (case hardwareConcurrency n of None \<Rightarrow> False | Some c \<Rightarrow> c \<le> 4)
      in if isMobile n then 12 else if isLowEnd then 16 else 24)"

definition createPooledObject :: "mesh_rnd \<Rightarrow> nat \<Rightarrow> pooledObject" where
  "createPooledObject r index =
     (let radius = 2 + c_radius r * 3;
          theta = c_theta r * pi * 2;
          phi = c_phi r * pi;
          x = radius * sin phi * cos theta;
          y = radius * sin phi * sin theta;
          z = radius * cos phi
      in \<lparr> isActive = False,
           o_lastUpdate = 0,
           el_display = ''none'',
           el_opacity = 0,
           el_transform = None,
           el_innerHTML = Placeholder,
           mesh_position = (x, y, z),
           ud_originalPosition = (x, y, z),
           ud_life = c_life r,
           ud_metricIndex = index mod 4,
           ud_isVisible = False \<rparr>)"

text \<open>
  The loop of \<^verbatim>\<open>createObjectPool\<close>: iteration \<open>i\<close> allocates the object with reference
  \<open>i\<close> and pushes it on \<^verbatim>\<open>textElementPool\<close> and \<^verbatim>\<open>inactiveElements\<close>. \<open>k\<close> counts
  the iterations left.
\<close>

fun createObjectPoolFrom :: "(nat \<Rightarrow> mesh_rnd) \<Rightarrow> nat \<Rightarrow> nat \<Rightarrow> particles \<Rightarrow> particles" where
  "createObjectPoolFrom r i 0 s = s"
| "createObjectPoolFrom r i (Suc k) s =
     createObjectPoolFrom r (Suc i) k
       (s\<lparr> store := (store s)(i := createPooledObject (r i) i),
           textElementPool := textElementPool s @ [i],
           inactiveElements := inactiveElements s @ [i] \<rparr>)"

definition createObjectPool :: "(nat \<Rightarrow> mesh_rnd) \<Rightarrow> particles \<Rightarrow> particles" where
  "createObjectPool r s = createObjectPoolFrom r 0 (poolSize s) s"

subsection \<open>Acquire and release\<close>

definition getActiveObject :: "particles \<Rightarrow> ref option \<times> particles" where
  "getActiveObject s =
     (if length (inactiveElements s) > 0 then
        (let obj = last (inactiveElements s);
             s1 = s\<lparr> inactiveElements := butlast (inactiveElements s) \<rparr>;
             s2 = s1\<lparr> store := (store s1)(obj := (store s1 obj)\<lparr> isActive := True \<rparr>) \<rparr>;
             s3 = s2\<lparr> activeElements := activeElements s2 @ [obj] \<rparr>
         in (Some obj, s3))
      else (None, s))"

text \<open>\<^verbatim>\<open>Array.prototype.indexOf\<close>: the first index holding the value, or \<open>-1\<close>.\<close>

fun indexOf :: "'a list \<Rightarrow> 'a \<Rightarrow> int" where
  "indexOf [] x = - 1"
| "indexOf (y # ys) x = (if y = x then 0 else (let i = indexOf ys x in if i = - 1 then - 1 else i + 1))"

text \<open>\<^verbatim>\<open>splice(i, 1)\<close>: remove the element at index \<open>i\<close>.\<close>

definition splice1 :: "nat \<Rightarrow> 'a list \<Rightarrow> 'a list" where
  "splice1 i xs = take i xs @ drop (Suc i) xs"

definition releaseObject :: "ref \<Rightarrow> particles \<Rightarrow> particles" where
  "releaseObject obj s =
     (if \<not> isActive (store s obj) then s
      else
        (let s1 = s\<lparr> store := (store s)(obj := (store s obj)\<lparr> isActive := False,
                                                             el_display := ''none'',
                                                             ud_isVisible := False \<rparr>) \<rparr>;
             activeIndex = indexOf (activeElements s1) obj
         in if activeIndex > - 1 then
              s1\<lparr> activeElements := splice1 (nat activeIndex) (activeElements s1),
                  inactiveElements := inactiveElements s1 @ [obj] \<rparr>
            else s1))"

subsection \<open>checkPerformance\<close>

text \<open>\<^verbatim>\<open>Math.round\<close> rounds to the nearest integer, halves upwards.\<close>

definition js_round :: "real \<Rightarrow> int" where
  "js_round x = \<lfloor>x + 1 / 2\<rfloor>"

text \<open>
  \<^verbatim>\<open>Math.round(1000 * frameCount / deltaTime)\<close>: a zero \<open>deltaTime\<close> gives
  \<^verbatim>\<open>NaN\<close> for no frames and \<^verbatim>\<open>Infinity\<close> otherwise (the clock is monotonic, so a
  zero \<open>deltaTime\<close> is \<open>+0\<close>).
\<close>

definition measureFPS :: "nat \<Rightarrow> real \<Rightarrow> jsnum" where
  "measureFPS frames deltaTime =
     (if deltaTime = 0 then (if frames = 0 then NaN else PosInf)
      else Num (js_round (1000 * of_nat frames / deltaTime)))"

fun js_less :: "jsnum \<Rightarrow> int \<Rightarrow> bool" where
  "js_less (Num a) b = (a < b)"
| "js_less NegInf b = True"
| "js_less PosInf b = False"
| "js_less NaN b = False"

fun js_greater :: "jsnum \<Rightarrow> int \<Rightarrow> bool" where
  "js_greater (Num a) b = (a > b)"
| "js_greater PosInf b = True"
| "js_greater NegInf b = False"
| "js_greater NaN b = False"

definition checkPerformance :: "real \<Rightarrow> particles \<Rightarrow> particles" where
  "checkPerformance now s =
     (let deltaTime = now - lastFPSCheck s;
          s1 = s\<lparr> currentFPS := measureFPS (frameCount s) deltaTime \<rparr>;
          s2 = (if js_less (currentFPS s1) 30 \<and> textCount s1 > 8 then
                  s1\<lparr> textCount := max 8 (textCount s1 - 2) \<rparr>
                else if js_greater (currentFPS s1) 50 \<and> textCount s1 < getOptimalTextCount (nav s1) then
                  s1\<lparr> textCount := min (getOptimalTextCount (nav s1)) (textCount s1 + 1) \<rparr>
                else s1)
      in s2\<lparr> frameCount := 0, lastFPSCheck := now \<rparr>)"

subsection \<open>Content and reconciliation\<close>

definition statusColor :: "string \<Rightarrow> string" where
  "statusColor st =
     (if st = ''warning'' then ''#ffb366''
      else if st = ''critical'' then ''#ff6b6b''
      else ''#60b2ff'')"

definition renderContent :: "metric \<Rightarrow> html" where
  "renderContent m =
     (if m_type m = ''location'' \<or> m_type m = ''fuel'' \<or> m_type m = ''engine'' then
        Card (m_vehicleId m) (statusColor (m_status m)) (m_value m) (m_detail m)
      else if m_type m = ''driver'' \<or> m_type m = ''fleet'' then
        Card (m_label m) (statusColor (m_status m)) (m_value m) (m_detail m)
      else DefaultCard)"

text \<open>\<open>updateElementContent\<close> is only called with a metric that exists.\<close>

definition updateElementContent :: "real \<Rightarrow> ref \<Rightarrow> metric \<Rightarrow> particles \<Rightarrow> particles" where
  "updateElementContent now obj m s =
     s\<lparr> store := (store s)(obj := (store s obj)\<lparr> el_innerHTML := renderContent m,
                                                  o_lastUpdate := now \<rparr>) \<rparr>"

text \<open>
  The \<^verbatim>\<open>forEach\<close> over \<^verbatim>\<open>activeElements\<close> that rewrites the content: \<open>objs\<close> are the
  references still to visit, \<open>index\<close> the index of the first of them.
\<close>

fun updateContentFrom :: "real \<Rightarrow> nat \<Rightarrow> ref list \<Rightarrow> particles \<Rightarrow> particles" where
  "updateContentFrom now index [] s = s"
| "updateContentFrom now index (obj # objs) s =
     updateContentFrom now (Suc index) objs
       (if index < length (currentMetrics s)
        then updateElementContent now obj (currentMetrics s ! index) s
        else s)"

definition updateTextContent :: "js_fmt \<Rightarrow> real \<Rightarrow> particles \<Rightarrow> particles" where
  "updateTextContent f now s =
     (let s1 = s\<lparr> currentMetrics := getDisplayMetrics f (vehicles s) \<rparr>
      in updateContentFrom now 0 (activeElements s1) s1)"

datatype error = TypeError

text \<open>
  The first loop of \<^verbatim>\<open>updateDisplayMetrics\<close> releases the last active object while
  there are more active objects than \<^verbatim>\<open>textCount\<close>. With no active object left (a
  negative \<^verbatim>\<open>textCount\<close>) the array read yields \<^verbatim>\<open>undefined\<close> and
  \<^verbatim>\<open>releaseObject\<close> throws on reading its flag. \<^verbatim>\<open>releaseObject\<close> returns at once
  on an object whose flag is already off, and then the loop never ends: not returning is
  the value \<open>None\<close>.
\<close>

partial_function (option) releaseExcess :: "particles \<Rightarrow> (error + particles) option" where
  "releaseExcess s =
     (if int (length (activeElements s)) > textCount s then
        (if activeElements s = [] then Some (Inl TypeError)
         else releaseExcess (releaseObject (last (activeElements s)) s))
      else Some (Inr s))"

text \<open>
  The second loop activates objects until the target is met or the pool is exhausted.
  Every round that does not leave the loop removes one inactive reference.
\<close>

function activateNeeded :: "particles \<Rightarrow> particles" where
  "activateNeeded s =
     (if int (length (activeElements s)) < min (textCount s) (int (length (currentMetrics s))) then
        (case getActiveObject s of
           (None, s1) \<Rightarrow> s1
         | (Some obj, s1) \<Rightarrow>
             activateNeeded
               (s1\<lparr> store := (store s1)(obj := (store s1 obj)\<lparr> el_display := ''block'',
                                                               ud_isVisible := True \<rparr>) \<rparr>))
      else s)"
  by pat_completeness auto
termination
  by (relation "measure (\<lambda>s. length (inactiveElements s))")
     (auto simp: getActiveObject_def Let_def split: if_splits)

declare activateNeeded.simps [simp del]

definition updateDisplayMetrics ::
  "js_fmt \<Rightarrow> real \<Rightarrow> particles \<Rightarrow> (error + particles) option" where
  "updateDisplayMetrics f now s =
     (let s1 = s\<lparr> currentMetrics := getDisplayMetrics f (vehicles s) \<rparr>
      in case releaseExcess s1 of
           None \<Rightarrow> None
         | Some (Inl e) \<Rightarrow> Some (Inl e)
         | Some (Inr s2) \<Rightarrow>
             (let s3 = activateNeeded s2
              in Some (Inr (updateContentFrom now 0 (activeElements s3) s3))))"

subsection \<open>The constructor\<close>

text \<open>What the store holds at a reference no object was allocated at.\<close>

definition unallocated :: pooledObject where
  "unallocated =
     \<lparr> isActive = False, o_lastUpdate = 0, el_display = ''none'', el_opacity = 0,
       el_transform = None, el_innerHTML = Placeholder, mesh_position = (0, 0, 0),
       ud_originalPosition = (0, 0, 0), ud_life = 0, ud_metricIndex = 0,
       ud_isVisible = False \<rparr>"

text \<open>
  The constructor reads two clocks: \<open>now\<close> is \<^verbatim>\<open>Date.now()\<close>, \<open>pnow\<close> is
  \<^verbatim>\<open>performance.now()\<close>. The class body declares \<^verbatim>\<open>setupDataUpdates\<close> twice; the
  later declaration replaces the earlier one, so \<^verbatim>\<open>init\<close> runs
  \<^verbatim>\<open>updateTextContent\<close> once and never \<^verbatim>\<open>updateDisplayMetrics\<close>.
\<close>

definition construct ::
  "navigator \<Rightarrow> js_fmt \<Rightarrow> real \<Rightarrow> real \<Rightarrow> (nat \<Rightarrow> init_rnd) \<Rightarrow> (nat \<Rightarrow> mesh_rnd) \<Rightarrow> particles" where
  "construct n f now pnow ir mr =
     (let s0 = \<lparr> nav = n,
                 textCount = getOptimalTextCount n,
                 poolSize = 32,
                 cullingEnabled = True,
                 store = (\<lambda>_. unallocated),
                 textElementPool = [],
                 activeElements = [],
                 inactiveElements = [],
                 vehicles = initializeFleet now ir,
                 currentMetrics = [],
                 frameCount = 0,
                 lastFPSCheck = pnow,
                 currentFPS = Num 60 \<rparr>
      in updateTextContent f now (createObjectPool mr s0))"

subsection \<open>The frame update\<close>

text \<open>
  What one frame reads from its surroundings: the elapsed time in seconds, the camera
  (\<open>None\<close> when there is none yet) as the map \<^verbatim>\<open>Vector3.project\<close> applies, the viewport
  size, the audio level (\<open>None\<close> when absent), and whether \<^verbatim>\<open>requestIdleCallback\<close>
  exists.
\<close>

record frame =
  f_time :: real
  f_camera :: "(vec3 \<Rightarrow> vec3) option"
  f_width :: real
  f_height :: real
  f_synthLoop :: "real option"
  f_hasIdleCallback :: bool

definition lifeStep :: "pooledObject \<Rightarrow> pooledObject" where
  "lifeStep o1 =
     (let o2 = o1\<lparr> ud_life := ud_life o1 + 0.005 \<rparr>
      in if ud_life o2 > 1 then o2\<lparr> ud_life := 0 \<rparr> else o2)"

fun updateNonCriticalFrom :: "ref list \<Rightarrow> particles \<Rightarrow> particles" where
  "updateNonCriticalFrom [] s = s"
| "updateNonCriticalFrom (obj # objs) s =
     updateNonCriticalFrom objs (s\<lparr> store := (store s)(obj := lifeStep (store s obj)) \<rparr>)"

definition updateNonCritical :: "particles \<Rightarrow> particles" where
  "updateNonCritical s = updateNonCriticalFrom (activeElements s) s"

definition finalAlpha :: "real \<Rightarrow> real \<Rightarrow> real" where
  "finalAlpha life distance =
     (let lifeAlpha = sin (life * pi);
          distanceAlpha = (if distance > 1 then 0 else 1 - distance)
      in lifeAlpha * distanceAlpha * 0.9)"

text \<open>The body of the \<^verbatim>\<open>forEach\<close> of \<^verbatim>\<open>updateCritical\<close>, for the object at \<open>index\<close>.\<close>

definition criticalStep ::
  "bool \<Rightarrow> frame \<Rightarrow> (vec3 \<Rightarrow> vec3) \<Rightarrow> nat \<Rightarrow> pooledObject \<Rightarrow> pooledObject" where
  "criticalStep culling fr camera index o1 =
     (let flowStrength = 0.5 + (case f_synthLoop fr of None \<Rightarrow> 0 | Some a \<Rightarrow> a) * 0.001;
          time = f_time fr;
          noiseX = sin (time * 0.5 + of_nat index * 0.1) * 0.02;
          noiseY = cos (time * 0.3 + of_nat index * 0.15) * 0.02;
          noiseZ = sin (time * 0.7 + of_nat index * 0.2) * 0.02;
          o2 = (case ud_originalPosition o1 of (ox, oy, oz) \<Rightarrow>
                  o1\<lparr> mesh_position := (ox + noiseX * flowStrength,
                                         oy + noiseY * flowStrength,
                                         oz + noiseZ * flowStrength) \<rparr>)
      in case camera (mesh_position o2) of (wx, wy, wz) \<Rightarrow>
           if culling \<and> (wz > 1 \<or> wz < - 1) then
             (if ud_isVisible o2 then o2\<lparr> el_display := ''none'', ud_isVisible := False \<rparr> else o2)
           else
             (let screenX = (wx * 0.5 + 0.5) * f_width fr;
                  screenY = (- wy * 0.5 + 0.5) * f_height fr;
                  o3 = o2\<lparr> el_transform := Some (screenX, screenY) \<rparr>;
                  alpha = finalAlpha (ud_life o3) wz;
                  o4 = (if alpha > 0.1 \<and> \<not> ud_isVisible o3 then
                          o3\<lparr> el_display := ''block'', ud_isVisible := True \<rparr>
                        else if alpha \<le> 0.1 \<and> ud_isVisible o3 then
                          o3\<lparr> el_display := ''none'', ud_isVisible := False \<rparr>
                        else o3)
              in if ud_isVisible o4 then o4\<lparr> el_opacity := alpha \<rparr> else o4))"

fun updateCriticalFrom ::
  "frame \<Rightarrow> (vec3 \<Rightarrow> vec3) \<Rightarrow> nat \<Rightarrow> ref list \<Rightarrow> particles \<Rightarrow> particles" where
  "updateCriticalFrom fr camera index [] s = s"
| "updateCriticalFrom fr camera index (obj # objs) s =
     updateCriticalFrom fr camera (Suc index) objs
       (s\<lparr> store := (store s)(obj := criticalStep (cullingEnabled s) fr camera index (store s obj)) \<rparr>)"

definition updateCritical :: "frame \<Rightarrow> (vec3 \<Rightarrow> vec3) \<Rightarrow> particles \<Rightarrow> particles" where
  "updateCritical fr camera s = updateCriticalFrom fr camera 0 (activeElements s) s"

text \<open>
  \<^verbatim>\<open>update\<close>: with \<^verbatim>\<open>requestIdleCallback\<close> the life-cycle update is only scheduled
  and runs later, as a call of \<open>updateNonCritical\<close> of its own; without it, it runs
  before the critical update.
\<close>

definition update :: "frame \<Rightarrow> particles \<Rightarrow> particles" where
  "update fr s =
     (if length (activeElements s) = 0 then s
      else
        (let s1 = s\<lparr> frameCount := frameCount s + 1 \<rparr>
         in case f_camera fr of
              None \<Rightarrow> s1
            | Some camera \<Rightarrow>
                (let s2 = (if f_hasIdleCallback fr then s1 else updateNonCritical s1)
                 in updateCritical fr camera s2)))"

subsection \<open>Calls on a live instance\<close>

text \<open>
  Everything that can happen to a live instance after construction: the simulation timer
  (\<open>Tick\<close>), the content timer, the performance timer, a frame, a deferred life-cycle
  update, and calls of the pool's methods in any order. \<^verbatim>\<open>destroy\<close> ends the life of the
  instance and is not among them.
\<close>

datatype action =
    Tick "nat \<Rightarrow> tick_rnd"
  | UpdateTextContent js_fmt real
  | CheckPerformance real
  | Update frame
  | UpdateNonCritical
  | GetActiveObject
  | ReleaseObject ref
  | UpdateDisplayMetrics js_fmt real

fun perform :: "action \<Rightarrow> particles \<Rightarrow> (error + particles) option" where
  "perform (Tick r) s = Some (Inr (s\<lparr> vehicles := updateVehicleData r (vehicles s) \<rparr>))"
| "perform (UpdateTextContent f now) s = Some (Inr (updateTextContent f now s))"
| "perform (CheckPerformance now) s = Some (Inr (checkPerformance now s))"
| "perform (Update fr) s = Some (Inr (update fr s))"
| "perform UpdateNonCritical s = Some (Inr (updateNonCritical s))"
| "perform GetActiveObject s = Some (Inr (snd (getActiveObject s)))"
| "perform (ReleaseObject obj) s = Some (Inr (releaseObject obj s))"
| "perform (UpdateDisplayMetrics f now) s = updateDisplayMetrics f now s"

fun run :: "action list \<Rightarrow> particles \<Rightarrow> (error + particles) option" where
  "run [] s = Some (Inr s)"
| "run (a # as) s =
     (case perform a s of
        None \<Rightarrow> None
      | Some (Inl e) \<Rightarrow> Some (Inl e)
      | Some (Inr s1) \<Rightarrow> run as s1)"

subsection \<open>The performance timer\<close>

text \<open>
  \<^verbatim>\<open>setupPerformanceMonitoring\<close> starts a timer that calls \<^verbatim>\<open>checkPerformance\<close> every
  \<open>5000\<close> ms. The constructor reads the clock into \<open>lastFPSCheck\<close> and starts the timer, and
  every run of the timer writes the clock into \<open>lastFPSCheck\<close>: on an exact clock the timer
  runs at \<open>lastFPSCheck + 5000\<close>. A window is the list of calls made on the instance between
  two runs of the timer; \<open>monitor\<close> performs the calls of each window and then the timer's
  \<^verbatim>\<open>checkPerformance\<close>.
\<close>

definition monitorPeriod :: real where
  "monitorPeriod = 5000"

fun monitor :: "action list list \<Rightarrow> particles \<Rightarrow> (error + particles) option" where
  "monitor [] s = Some (Inr s)"
| "monitor (w # ws) s =
     (case run w s of
        None \<Rightarrow> None
      | Some (Inl e) \<Rightarrow> Some (Inl e)
      | Some (Inr s1) \<Rightarrow> monitor ws (checkPerformance (lastFPSCheck s + monitorPeriod) s1))"

section \<open>Properties\<close>

subsection \<open>Predicates used in the statements\<close>

text \<open>A random number as \<^verbatim>\<open>Math.random()\<close> returns it.\<close>

definition unit_draw :: "real \<Rightarrow> bool" where
  "unit_draw x = (0 \<le> x \<and> x < 1)"

definition valid_init :: "init_rnd \<Rightarrow> bool" where
  "valid_init r =
     (unit_draw (i_level r) \<and> unit_draw (i_score r) \<and> unit_draw (i_speed r) \<and>
      unit_draw (i_harshAcceleration r) \<and> unit_draw (i_harshBraking r) \<and>
      unit_draw (i_harshCornering r) \<and> unit_draw (i_drivingTime r))"

text \<open>The two arrays partition the pool and the flag of an object tells which one holds it.\<close>

definition pool_inv :: "particles \<Rightarrow> bool" where
  "pool_inv s =
     (distinct (activeElements s @ inactiveElements s) \<and>
      set (activeElements s) \<union> set (inactiveElements s) = set (textElementPool s) \<and>
      distinct (textElementPool s) \<and>
      length (textElementPool s) = poolSize s \<and>
      (\<forall>obj. isActive (store s obj) = (obj \<in> set (activeElements s))))"

text \<open>
  The fuel rule in the words of the specification: an active entity consumes
  \<open>speed / efficiencyFactor / 3600 * deltaSeconds\<close> litres, any other entity none.
\<close>

definition deltaSeconds :: real where
  "deltaSeconds = updateInterval / 1000"

definition spec_fuelConsumed :: "runState \<Rightarrow> real \<Rightarrow> real \<Rightarrow> real \<Rightarrow> real" where
  "spec_fuelConsumed st spd eff dt = (if st = Driving then spd / eff / 3600 * dt else 0)"

text \<open>The ranges a vehicle's fuel and driver data stay in.\<close>

definition veh_inv :: "vehicle \<Rightarrow> bool" where
  "veh_inv v =
     (0 \<le> level (vfuel v) \<and> level (vfuel v) \<le> capacity (vfuel v) \<and>
      0 < efficiency (vfuel v) \<and>
      50 \<le> score (vdriver v) \<and> score (vdriver v) \<le> 100 \<and>
      0 \<le> harshAcceleration (vdriver v) \<and> 0 \<le> harshBraking (vdriver v) \<and>
      0 \<le> harshCornering (vdriver v))"

definition fault_inv :: "vehicle \<Rightarrow> bool" where
  "fault_inv v =
     (length (faultCodes (vengine v)) \<le> 3 \<and> distinct (faultCodes (vengine v)))"

text \<open>
  The governor in the words of the specification: the measured frame rate of a window is
  \<open>frames * 1000 / windowMs\<close>; below \<open>30\<close> the target drops by \<open>2\<close> but not below \<open>8\<close>,
  above \<open>50\<close> it rises by \<open>1\<close> but not above the baseline, otherwise it stays.
\<close>

definition spec_measuredFPS :: "nat \<Rightarrow> real \<Rightarrow> real" where
  "spec_measuredFPS frames windowMs = real frames * 1000 / windowMs"

definition spec_targetActive :: "int \<Rightarrow> real \<Rightarrow> int \<Rightarrow> int" where
  "spec_targetActive baseline fps target =
     (if fps < 30 then max 8 (target - 2)
      else if fps > 50 then min baseline (target + 1)
      else target)"

text \<open>
  The frames of a window are the calls of \<^verbatim>\<open>update\<close> in it that find an active object:
  \<^verbatim>\<open>update\<close> returns before it counts while no object is active. \<open>countedFrames\<close> counts
  them along the calls of one window, \<open>windowFrames\<close> window by window along the run of
  \<open>monitor\<close>. Only the timer calls \<^verbatim>\<open>checkPerformance\<close>: a window holds no such call.
\<close>

fun isCheckPerformance :: "action \<Rightarrow> bool" where
  "isCheckPerformance (CheckPerformance now) = True"
| "isCheckPerformance (Tick r) = False"
| "isCheckPerformance (UpdateTextContent f now) = False"
| "isCheckPerformance (Update fr) = False"
| "isCheckPerformance UpdateNonCritical = False"
| "isCheckPerformance GetActiveObject = False"
| "isCheckPerformance (ReleaseObject obj) = False"
| "isCheckPerformance (UpdateDisplayMetrics f now) = False"

fun isFrame :: "action \<Rightarrow> bool" where
  "isFrame (Update fr) = True"
| "isFrame (CheckPerformance now) = False"
| "isFrame (Tick r) = False"
| "isFrame (UpdateTextContent f now) = False"
| "isFrame UpdateNonCritical = False"
| "isFrame GetActiveObject = False"
| "isFrame (ReleaseObject obj) = False"
| "isFrame (UpdateDisplayMetrics f now) = False"

definition counted :: "action \<Rightarrow> particles \<Rightarrow> nat" where
  "counted a s = (if isFrame a \<and> activeElements s \<noteq> [] then 1 else 0)"

fun countedFrames :: "action list \<Rightarrow> particles \<Rightarrow> nat" where
  "countedFrames [] s = 0"
| "countedFrames (a # as) s =
     (case perform a s of
        Some (Inr s1) \<Rightarrow> counted a s + countedFrames as s1
      | _ \<Rightarrow> 0)"

fun windowFrames :: "action list list \<Rightarrow> particles \<Rightarrow> nat list" where
  "windowFrames [] s = []"
| "windowFrames (w # ws) s =
     countedFrames w s #
     (case run w s of
        Some (Inr s1) \<Rightarrow> windowFrames ws (checkPerformance (lastFPSCheck s + monitorPeriod) s1)
      | _ \<Rightarrow> [])"

text \<open>
  The governor in the words of the specification over a sequence of windows of the fixed
  length, each given by its number of frames, with the measured rate rounded to the
  nearest integer as the code compares it.
\<close>

fun spec_governor :: "int \<Rightarrow> int \<Rightarrow> nat list \<Rightarrow> int" where
  "spec_governor baseline target [] = target"
| "spec_governor baseline target (n # ns) =
     spec_governor baseline
       (spec_targetActive baseline (of_int (js_round (spec_measuredFPS n monitorPeriod))) target) ns"

text \<open>
  The visibility alpha in the words of the specification, with the depth clamped to
  \<open>[0,1]\<close>.
\<close>

definition spec_alpha :: "real \<Rightarrow> real \<Rightarrow> real" where
  "spec_alpha lifePhase z = sin (lifePhase * pi) * (1 - max 0 (min 1 z)) * 0.9"

text \<open>The element of an object is displayed exactly when the object counts as visible.\<close>

definition vis_ok :: "pooledObject \<Rightarrow> bool" where
  "vis_ok x = (el_display x = (if ud_isVisible x then ''block'' else ''none''))"

text \<open>
  What the critical update relies on: culling is on, no object is active twice, and every
  element is displayed exactly when its object counts as visible.
\<close>

definition vis_inv :: "particles \<Rightarrow> bool" where
  "vis_inv s = (cullingEnabled s \<and> distinct (activeElements s) \<and> (\<forall>r. vis_ok (store s r)))"

text \<open>
  What holds of an instance at every moment of its life: the pool is partitioned, its
  capacity is \<open>32\<close>, the target count lies between the floor \<open>8\<close> and the baseline of the
  device, and the fleet has its twelve vehicles.
\<close>

definition sys_inv :: "particles \<Rightarrow> bool" where
  "sys_inv s =
     (pool_inv s \<and> poolSize s = 32 \<and> 8 \<le> textCount s \<and>
      textCount s \<le> getOptimalTextCount (nav s) \<and> length (vehicles s) = 12)"

subsection \<open>Sample inputs\<close>

text \<open>
  Random numbers for one vehicle's creation and for one vehicle's tick, every draw
  \<open>1/2\<close>: the vehicle starts driving and no gate of the tick opens. \<open>idle_init\<close> differs
  in the draw that decides the state: the vehicle starts idle.
\<close>

definition sample_init :: init_rnd where
  "sample_init =
     \<lparr> i_lat = 1/2, i_lng = 1/2, i_speed = 1/2, i_heading = 1/2, i_altitude = 1/2,
       i_level = 1/2, i_lastFill = 1/2, i_rpm = 1/2, i_temperature = 1/2,
       i_oilPressure = 1/2, i_voltage = 1/2, i_hours = 1/2, i_driverId = 1/2,
       i_score = 1/2, i_harshAcceleration = 1/2, i_harshBraking = 1/2,
       i_harshCornering = 1/2, i_idleTime = 1/2, i_drivingTime = 1/2, i_state = 1/2,
       i_nextMaintenance = 1/2, i_connected = 1/2 \<rparr>"

definition idle_init :: init_rnd where
  "idle_init = sample_init\<lparr> i_state := 9/10 \<rparr>"

definition sample_tick :: tick_rnd where
  "sample_tick =
     \<lparr> t_speed = 1/2, t_headingGate = 1/2, t_heading = 1/2, t_rpm = 1/2,
       t_temperature = 1/2, t_oilPressure = 1/2, t_idleRpm = 1/2, t_voltage = 1/2,
       t_faultGate = 1/2, t_faultPick = 1/2, t_harshGate = 1/2, t_harshType = 1/2,
       t_stateGate = 1/2, t_connectedGate = 1/2, t_now = 0 \<rparr>"

text \<open>A tick whose fault gate opens and picks the middle of the catalog.\<close>

definition fault_tick :: tick_rnd where
  "fault_tick = sample_tick\<lparr> t_faultGate := 0, t_faultPick := 1/2 \<rparr>"

text \<open>
  A desktop browser, a number formatting that prints nothing, the random numbers of one
  mesh, the instance constructed from them, a frame without camera, and a sequence of
  calls on the instance.
\<close>

definition desktop :: navigator where
  "desktop = \<lparr> isMobile = False, hardwareConcurrency = Some 8 \<rparr>"

definition plain_fmt :: js_fmt where
  "plain_fmt = \<lparr> toFixed = (\<lambda>d x. ''''), toStr = (\<lambda>x. '''') \<rparr>"

definition sample_mesh :: mesh_rnd where
  "sample_mesh = \<lparr> c_radius = 1/2, c_theta = 0, c_phi = 1/2, c_life = 1/2 \<rparr>"

definition sample_particles :: particles where
  "sample_particles = construct desktop plain_fmt 0 0 (\<lambda>i. sample_init) (\<lambda>i. sample_mesh)"

definition sample_frame :: frame where
  "sample_frame = \<lparr> f_time = 0, f_camera = None, f_width = 800, f_height = 600,
                     f_synthLoop = None, f_hasIdleCallback = True \<rparr>"

definition sample_calls :: "action list" where
  "sample_calls = [GetActiveObject, UpdateDisplayMetrics plain_fmt 0, ReleaseObject 31,
                   Update sample_frame, CheckPerformance 5000, Tick (\<lambda>i. sample_tick)]"

text \<open>A window of \<open>125\<close> frames: \<open>25\<close> frames per second over \<open>5000\<close> ms.\<close>

definition busy_window :: "action list" where
  "busy_window = replicate 125 (Update sample_frame)"

text \<open>
  Random numbers for the creation and for the tick of one vehicle of class
  \<^verbatim>\<open>Particles\<close>, every draw \<open>1/2\<close>: the ignition is on and stays on.
\<close>

definition sample_legacy_init :: l_init_rnd where
  "sample_legacy_init =
     \<lparr> li_lat = 1/2, li_lng = 1/2, li_speed = 1/2, li_heading = 1/2, li_altitude = 1/2,
       li_level = 1/2, li_lastFill = 1/2, li_temperature = 1/2, li_rpm = 1/2, li_load = 1/2,
       li_runtime = 1/2, li_driverId = 1/2, li_score = 1/2, li_drivingTime = 1/2,
       li_violations = 1/2, li_connected = 1/2, li_ignition = 1/2, li_lastUpdate = 1/2,
       li_nextMaintenance = 1/2 \<rparr>"

definition sample_legacy_tick :: l_tick_rnd where
  "sample_legacy_tick =
     \<lparr> lt_speed = 1/2, lt_heading = 1/2, lt_temperature = 1/2, lt_rpm = 1/2, lt_load = 1/2,
       lt_ignitionGate = 1/2, lt_now = 0 \<rparr>"

text \<open>A camera that projects every point to depth \<open>-1\<close>.\<close>

definition near_camera :: "vec3 \<Rightarrow> vec3" where
  "near_camera p = (0, 0, - 1)"

section \<open>Verification\<close>

subsection \<open>What each update rule leaves alone\<close>

lemma updateVehicleLocation_other [simp]:
  "vstatus (updateVehicleLocation r v) = vstatus v"
  "vfuel (updateVehicleLocation r v) = vfuel v"
  "vengine (updateVehicleLocation r v) = vengine v"
  "vdriver (updateVehicleLocation r v) = vdriver v"
  by (simp_all add: updateVehicleLocation_def Let_def)

lemma updateVehicleLocation_speed_driving:
  "state (vstatus v) = Driving \<Longrightarrow>
   speed (vlocation (updateVehicleLocation r v)) = max 10 (min 100 (speed (vlocation v) + (t_speed r - 0.5) * 5))"
  by (simp add: updateVehicleLocation_def Let_def)

lemma updateVehicleLocation_idle:
  "state (vstatus v) \<noteq> Driving \<Longrightarrow> updateVehicleLocation r v = v"
  by (simp add: updateVehicleLocation_def)

lemma updateFuelData_other [simp]:
  "vstatus (updateFuelData v) = vstatus v"
  "vlocation (updateFuelData v) = vlocation v"
  "vengine (updateFuelData v) = vengine v"
  "vdriver (updateFuelData v) = vdriver v"
  "capacity (vfuel (updateFuelData v)) = capacity (vfuel v)"
  "efficiency (vfuel (updateFuelData v)) = efficiency (vfuel v)"
  by (simp_all add: updateFuelData_def Let_def)

lemma updateFuelData_level:
  "level (vfuel (updateFuelData v)) =
     (if state (vstatus v) = Driving
      then max 0 (level (vfuel v) - speed (vlocation v) / efficiency (vfuel v) / 3600 * (updateInterval / 1000))
      else level (vfuel v))"
  by (simp add: updateFuelData_def Let_def)

lemma updateFuelData_consumption_idle:
  "state (vstatus v) \<noteq> Driving \<Longrightarrow> consumption (vfuel (updateFuelData v)) = 0"
  by (simp add: updateFuelData_def)

lemma updateEngineData_other [simp]:
  "vfuel (updateEngineData r v) = vfuel v"
  "vstatus (updateEngineData r v) = vstatus v"
  "vlocation (updateEngineData r v) = vlocation v"
  "vdriver (updateEngineData r v) = vdriver v"
  by (simp_all add: updateEngineData_def Let_def)

lemma updateDriverBehavior_other [simp]:
  "vfuel (updateDriverBehavior r v) = vfuel v"
  "vstatus (updateDriverBehavior r v) = vstatus v"
  "vlocation (updateDriverBehavior r v) = vlocation v"
  "vengine (updateDriverBehavior r v) = vengine v"
  by (simp_all add: updateDriverBehavior_def Let_def)

lemma updateVehicleStatus_other [simp]:
  "vfuel (updateVehicleStatus r v) = vfuel v"
  "vlocation (updateVehicleStatus r v) = vlocation v"
  "vengine (updateVehicleStatus r v) = vengine v"
  "vdriver (updateVehicleStatus r v) = vdriver v"
  by (simp_all add: updateVehicleStatus_def Let_def)

lemma updateVehicle_parts:
  "vfuel (updateVehicle r v) = vfuel (updateFuelData (updateVehicleLocation r v))"
  "vlocation (updateVehicle r v) = vlocation (updateVehicleLocation r v)"
  "vengine (updateVehicle r v) = vengine (updateEngineData r (updateFuelData (updateVehicleLocation r v)))"
  "vdriver (updateVehicle r v) = vdriver (updateDriverBehavior r (updateVehicleLocation r v))"
  by (simp_all add: updateVehicle_def Let_def updateDriverBehavior_def)

subsection \<open>Fleet positions\<close>

lemma length_updateFrom [simp]: "length (updateFrom r k vs) = length vs"
  by (induction vs arbitrary: k) simp_all

lemma updateFrom_nth:
  "i < length vs \<Longrightarrow> updateFrom r k vs ! i = updateVehicle (r (k + i)) (vs ! i)"
proof (induction vs arbitrary: k i)
  case Nil
  then show ?case by simp
next
  case (Cons v vs)
  then show ?case by (cases i) simp_all
qed

lemma length_simulate [simp]: "length (simulate r n vs) = length vs"
  by (induction n) (simp_all add: updateVehicleData_def)

lemma simulate_nth:
  "i < length vs \<Longrightarrow> simulate r n vs ! i = simulateVehicle (\<lambda>k. r k i) n (vs ! i)"
  by (induction n) (simp_all add: updateVehicleData_def updateFrom_nth)

lemma length_initializeFleet [simp]: "length (initializeFleet now ir) = 12"
  by (simp add: initializeFleet_def)

lemma initializeFleet_nth:
  "i < 12 \<Longrightarrow> initializeFleet now ir ! i = newVehicle now (ir i) i"
  by (simp add: initializeFleet_def)

lemma fleet_member:
  assumes "v \<in> set (simulate r n (initializeFleet now ir))"
  obtains i where "i < 12" and "v = simulateVehicle (\<lambda>k. r k i) n (newVehicle now (ir i) i)"
proof -
  from assms obtain i where i: "i < length (simulate r n (initializeFleet now ir))"
    and v: "v = simulate r n (initializeFleet now ir) ! i"
    by (metis in_set_conv_nth)
  from i have "i < 12" by simp
  with v have "v = simulateVehicle (\<lambda>k. r k i) n (newVehicle now (ir i) i)"
    by (simp add: simulate_nth initializeFleet_nth)
  with \<open>i < 12\<close> show thesis by (rule that)
qed

subsection \<open>Ranges\<close>

lemma vehicleTypes_pos:
  "vehicleTypes ! (i mod length vehicleTypes) = (ty, fl, eff) \<Longrightarrow> 0 < fl \<and> 0 < eff"
proof -
  assume a: "vehicleTypes ! (i mod length vehicleTypes) = (ty, fl, eff)"
  have "i mod length vehicleTypes < length vehicleTypes"
    by (simp add: vehicleTypes_def)
  then have "vehicleTypes ! (i mod length vehicleTypes) \<in> set vehicleTypes"
    by (rule nth_mem)
  with a have "(ty, fl, eff) \<in> set vehicleTypes" by simp
  then show ?thesis by (auto simp: vehicleTypes_def)
qed

lemma newVehicle_inv:
  assumes "valid_init r"
  shows "veh_inv (newVehicle now r i)"
proof -
  obtain ty fl eff where t: "vehicleTypes ! (i mod length vehicleTypes) = (ty, fl, eff)"
    by (metis prod_cases3)
  then have pos: "0 < fl" "0 < eff" using vehicleTypes_pos by blast+
  from assms have lv: "0 \<le> i_level r" "i_level r < 1"
    and sc: "0 \<le> i_score r" "i_score r < 1"
    and h: "0 \<le> i_harshAcceleration r" "0 \<le> i_harshBraking r" "0 \<le> i_harshCornering r"
    by (simp_all add: valid_init_def unit_draw_def)
  have "0 \<le> 0.3 + i_level r * 0.6" "0.3 + i_level r * 0.6 \<le> 1" using lv by simp_all
  with pos have l1: "0 \<le> fl * (0.3 + i_level r * 0.6)" and l2: "fl * (0.3 + i_level r * 0.6) \<le> fl"
    by (simp_all add: mult_left_le)
  show ?thesis
    using t pos l1 l2 sc h by (simp add: veh_inv_def newVehicle_def)
qed

lemma updateVehicle_inv:
  assumes "veh_inv v"
  shows "veh_inv (updateVehicle r v)"
proof -
  let ?v1 = "updateVehicleLocation r v"
  from assms have lv: "0 \<le> level (vfuel v)" "level (vfuel v) \<le> capacity (vfuel v)"
    and eff: "0 < efficiency (vfuel v)"
    and h: "0 \<le> harshAcceleration (vdriver v)" "0 \<le> harshBraking (vdriver v)"
      "0 \<le> harshCornering (vdriver v)"
    by (simp_all add: veh_inv_def)
  have used: "state (vstatus v) = Driving \<Longrightarrow>
      0 \<le> speed (vlocation ?v1) / efficiency (vfuel v) / 3600 * (updateInterval / 1000)"
    using eff by (simp add: updateVehicleLocation_speed_driving updateInterval_def)
  have fuel: "0 \<le> level (vfuel (updateVehicle r v))"
      "level (vfuel (updateVehicle r v)) \<le> capacity (vfuel (updateVehicle r v))"
    using lv used by (auto simp: updateVehicle_parts updateFuelData_level)
  have e: "efficiency (vfuel (updateVehicle r v)) = efficiency (vfuel v)"
    by (simp add: updateVehicle_parts)
  let ?d = "vdriver (updateDriverBehavior r ?v1)"
  have cnt: "0 \<le> harshAcceleration ?d" "0 \<le> harshBraking ?d" "0 \<le> harshCornering ?d"
    using h by (simp_all add: updateDriverBehavior_def Let_def)
  have sc: "50 \<le> score ?d \<and> score ?d \<le> 100"
    using h by (auto simp: updateDriverBehavior_def Let_def divide_nonneg_pos)
  show ?thesis
    using fuel e eff cnt sc by (simp add: veh_inv_def updateVehicle_parts)
qed

lemma simulateVehicle_inv: "veh_inv v \<Longrightarrow> veh_inv (simulateVehicle r n v)"
  by (induction n) (simp_all add: updateVehicle_inv)

subsection \<open>Fuel level and driver score\<close>

text \<open>
  C7. Starting from the fleet that \<open>initializeFleet\<close> creates (every random number
  drawn there in \<open>[0,1)\<close>) and after any number of simulation ticks, with any random
  numbers whatever drawn in the ticks, every vehicle has its fuel level between \<open>0\<close> and
  its capacity and its driver score between \<open>50\<close> and \<open>100\<close>.
\<close>

theorem fuel_and_score_stay_in_range:
  assumes "\<forall>i<12. valid_init (ir i)"
  shows "\<forall>v \<in> set (simulate r n (initializeFleet now ir)).
           0 \<le> level (vfuel v) \<and> level (vfuel v) \<le> capacity (vfuel v) \<and>
           50 \<le> score (vdriver v) \<and> score (vdriver v) \<le> 100"
proof
  fix v assume "v \<in> set (simulate r n (initializeFleet now ir))"
  then obtain i where i: "i < 12"
    and v: "v = simulateVehicle (\<lambda>k. r k i) n (newVehicle now (ir i) i)"
    by (rule fleet_member)
  from assms i have "veh_inv (newVehicle now (ir i) i)" by (simp add: newVehicle_inv)
  then have "veh_inv v" unfolding v by (rule simulateVehicle_inv)
  then show "0 \<le> level (vfuel v) \<and> level (vfuel v) \<le> capacity (vfuel v) \<and>
           50 \<le> score (vdriver v) \<and> score (vdriver v) \<le> 100"
    by (simp add: veh_inv_def)
qed

lemma valid_sample_init: "valid_init sample_init"
  by (simp add: valid_init_def unit_draw_def sample_init_def)

theorem fuel_and_score_stay_in_range_witness:
  "0 \<le> level (vfuel (simulate (\<lambda>k i. sample_tick) 5 (initializeFleet 0 (\<lambda>i. sample_init)) ! 0)) \<and>
   level (vfuel (simulate (\<lambda>k i. sample_tick) 5 (initializeFleet 0 (\<lambda>i. sample_init)) ! 0))
     \<le> capacity (vfuel (simulate (\<lambda>k i. sample_tick) 5 (initializeFleet 0 (\<lambda>i. sample_init)) ! 0)) \<and>
   50 \<le> score (vdriver (simulate (\<lambda>k i. sample_tick) 5 (initializeFleet 0 (\<lambda>i. sample_init)) ! 0)) \<and>
   score (vdriver (simulate (\<lambda>k i. sample_tick) 5 (initializeFleet 0 (\<lambda>i. sample_init)) ! 0)) \<le> 100"
proof -
  let ?vs = "simulate (\<lambda>k i. sample_tick) 5 (initializeFleet 0 (\<lambda>i. sample_init))"
  have "?vs ! 0 \<in> set ?vs" by (rule nth_mem) simp
  moreover have "\<forall>i<12. valid_init ((\<lambda>i. sample_init) i)" by (simp add: valid_sample_init)
  ultimately show ?thesis
    using fuel_and_score_stay_in_range [of "\<lambda>i. sample_init" "\<lambda>k i. sample_tick" 5 0] by blast
qed

subsection \<open>Fuel consumption of a tick\<close>

text \<open>
  The rule of the run-state simulation. On a tick, \<open>updateFuelData\<close> lowers the fuel level
  of a driving vehicle by \<open>speed / efficiency / 3600 * deltaSeconds\<close> litres, floored at
  \<open>0\<close>, and leaves the level of a vehicle that is not driving as it is (it consumes \<open>0\<close>,
  and its consumption rate reads \<open>0\<close>). Within the whole update of a vehicle the speed is
  the one the location update of the same tick has just set, and \<open>deltaSeconds\<close> is
  \<open>updateInterval / 1000 = 1\<close>. The run state is the one at the start of the tick: it can
  only change at the end.
\<close>

lemma updateFuelData_rule:
  "(let used = spec_fuelConsumed (state (vstatus v)) (speed (vlocation v))
                 (efficiency (vfuel v)) deltaSeconds
    in level (vfuel (updateFuelData v)) =
         (if state (vstatus v) = Driving then max 0 (level (vfuel v) - used)
          else level (vfuel v) - used)) \<and>
   (state (vstatus v) \<noteq> Driving \<longrightarrow>
      spec_fuelConsumed (state (vstatus v)) (speed (vlocation v)) (efficiency (vfuel v)) deltaSeconds = 0 \<and>
      consumption (vfuel (updateFuelData v)) = 0) \<and>
   (let used = spec_fuelConsumed (state (vstatus v)) (speed (vlocation (updateVehicle r v)))
                 (efficiency (vfuel v)) deltaSeconds
    in level (vfuel (updateVehicle r v)) =
         (if state (vstatus v) = Driving then max 0 (level (vfuel v) - used)
          else level (vfuel v) - used)) \<and>
   deltaSeconds = 1"
  by (simp add: Let_def spec_fuelConsumed_def deltaSeconds_def updateVehicle_parts
      updateFuelData_level updateFuelData_consumption_idle updateInterval_def
      updateVehicleLocation_idle)

lemma sample_vehicle_facts:
  "state (vstatus (newVehicle 0 sample_init 0)) = Driving"
  "speed (vlocation (newVehicle 0 sample_init 0)) = 60"
  "level (vfuel (newVehicle 0 sample_init 0)) = 120"
  "efficiency (vfuel (newVehicle 0 sample_init 0)) = 17/2"
  by (simp_all add: newVehicle_def sample_init_def vehicleTypes_def)

lemma updateFuelData_rule_sample:
  "level (vfuel (updateVehicle sample_tick (newVehicle 0 sample_init 0))) = 120 - 1 / 510 \<and>
   speed (vlocation (updateVehicle sample_tick (newVehicle 0 sample_init 0))) = 60"
proof -
  have sp: "speed (vlocation (updateVehicle sample_tick (newVehicle 0 sample_init 0))) = 60"
    by (simp add: updateVehicle_parts updateVehicleLocation_speed_driving
        sample_vehicle_facts sample_tick_def)
  show ?thesis
    using updateFuelData_rule [of "newVehicle 0 sample_init 0" sample_tick]
    by (simp add: Let_def sp sample_vehicle_facts spec_fuelConsumed_def)
qed


text \<open>
  The rule of class \<^verbatim>\<open>Particles\<close>. With the ignition on at the start of the tick and a
  positive new speed, its tick takes \<open>speed / 100 * efficiency / 3600\<close> litres, floored at
  \<open>0\<close>, and adds them to the accumulated consumption; otherwise the fuel stays as it is.
\<close>

lemma legacy_location_speed:
  "speed (lv_location (legacyUpdateVehicle r v)) =
     (if ls_ignition (lv_status v)
      then max 0 (speed (lv_location v) + (lt_speed r - 0.5) * 10)
      else 0)"
  by (simp add: legacyUpdateVehicle_def Let_def)

lemma legacy_fuel:
  "lv_fuel (legacyUpdateVehicle r v) =
     (if ls_ignition (lv_status v) \<and> speed (lv_location (legacyUpdateVehicle r v)) > 0 then
        (lv_fuel v)\<lparr> level := max 0 (level (lv_fuel v)
                        - speed (lv_location (legacyUpdateVehicle r v)) / 100
                            * efficiency (lv_fuel v) * (1 / 3600)),
                     consumption := consumption (lv_fuel v)
                        + speed (lv_location (legacyUpdateVehicle r v)) / 100
                            * efficiency (lv_fuel v) * (1 / 3600) \<rparr>
      else lv_fuel v)"
  by (simp add: legacyUpdateVehicle_def Let_def)

lemma length_initFleetData [simp]: "length (initFleetData now r) = 15"
  by (simp add: initFleetData_def)

lemma initFleetData_nth:
  "i < 15 \<Longrightarrow> initFleetData now r ! i = legacyNewVehicle now (r i) i"
  by (simp add: initFleetData_def del: upt_Suc)

lemma length_legacyUpdateFrom [simp]: "length (legacyUpdateFrom r k vs) = length vs"
  by (induction vs arbitrary: k) simp_all

lemma legacyUpdateFrom_nth:
  "i < length vs \<Longrightarrow> legacyUpdateFrom r k vs ! i = legacyUpdateVehicle (r (k + i)) (vs ! i)"
proof (induction vs arbitrary: k i)
  case Nil
  then show ?case by simp
next
  case (Cons v vs)
  show ?case
  proof (cases i)
    case 0
    then show ?thesis by simp
  next
    case (Suc j)
    with Cons.prems have "j < length vs" by simp
    from Cons.IH [OF this, of "Suc k"] Suc show ?thesis by simp
  qed
qed

lemma legacyUpdateVehicleData_nth:
  "i < length vs \<Longrightarrow> legacyUpdateVehicleData r vs ! i = legacyUpdateVehicle (r i) (vs ! i)"
  by (simp add: legacyUpdateVehicleData_def legacyUpdateFrom_nth)

lemma sample_legacy_vehicle_facts:
  "ls_ignition (lv_status (legacyNewVehicle 0 sample_legacy_init 0))"
  "speed (lv_location (legacyNewVehicle 0 sample_legacy_init 0)) = 60"
  "level (lv_fuel (legacyNewVehicle 0 sample_legacy_init 0)) = 180"
  "efficiency (lv_fuel (legacyNewVehicle 0 sample_legacy_init 0)) = 17 / 2"
  by (simp_all add: legacyNewVehicle_def sample_legacy_init_def legacyVehicleTypes_def)

text \<open>
  The two rules agree only at an efficiency of \<open>10\<close>, which no vehicle type has: where the
  run-state rule divides by the efficiency, the rule of class \<^verbatim>\<open>Particles\<close> multiplies by
  a hundredth of it, over the same efficiency values.
\<close>

lemma legacy_consumption_differs:
  assumes "0 < spd" and "0 < e" and "e \<noteq> 10"
  shows "spd / 100 * e * (1 / 3600) \<noteq> spec_fuelConsumed Driving spd e 1"
proof
  assume "spd / 100 * e * (1 / 3600) = spec_fuelConsumed Driving spd e 1"
  then have "spd * e / 360000 = spd / (e * 3600)" by (simp add: spec_fuelConsumed_def)
  then have "spd * e * (e * 3600) = spd * 360000" using assms(2) by (simp add: field_simps)
  then have "e * e = 100" using assms(1) by simp
  then have "(e - 10) * (e + 10) = 0" by (simp add: algebra_simps)
  then show False using assms(2,3) by auto
qed

text \<open>
  C6 fails on the tick of class \<^verbatim>\<open>Particles\<close>. The first vehicle of a fleet created with
  every draw \<open>1/2\<close> has its ignition on, \<open>180\<close> litres and an efficiency of \<open>8.5\<close>. After a
  tick with every draw \<open>1/2\<close> it runs at \<open>60\<close> km/h; \<open>speed / efficiency / 3600 * deltaSeconds\<close>
  is \<open>1/510\<close> litres, the tick has taken \<open>17/12000\<close>.
\<close>

theorem legacy_fuel_not_by_efficiency:
  "ls_ignition (lv_status (initFleetData 0 (\<lambda>i. sample_legacy_init) ! 0)) \<and>
   level (lv_fuel (initFleetData 0 (\<lambda>i. sample_legacy_init) ! 0)) = 180 \<and>
   efficiency (lv_fuel (initFleetData 0 (\<lambda>i. sample_legacy_init) ! 0)) = 17 / 2 \<and>
   speed (lv_location (legacyUpdateVehicleData (\<lambda>i. sample_legacy_tick)
      (initFleetData 0 (\<lambda>i. sample_legacy_init)) ! 0)) = 60 \<and>
   spec_fuelConsumed Driving 60 (17 / 2) deltaSeconds = 1 / 510 \<and>
   level (lv_fuel (legacyUpdateVehicleData (\<lambda>i. sample_legacy_tick)
      (initFleetData 0 (\<lambda>i. sample_legacy_init)) ! 0)) = 180 - 17 / 12000 \<and>
   level (lv_fuel (legacyUpdateVehicleData (\<lambda>i. sample_legacy_tick)
      (initFleetData 0 (\<lambda>i. sample_legacy_init)) ! 0)) \<noteq> 180 - 1 / 510"
proof -
  let ?v = "legacyNewVehicle 0 sample_legacy_init 0"
  have n: "initFleetData 0 (\<lambda>i. sample_legacy_init) ! 0 = ?v" by (simp add: initFleetData_nth)
  have u: "legacyUpdateVehicleData (\<lambda>i. sample_legacy_tick)
      (initFleetData 0 (\<lambda>i. sample_legacy_init)) ! 0 = legacyUpdateVehicle sample_legacy_tick ?v"
    by (simp add: legacyUpdateVehicleData_nth n)
  have sp: "speed (lv_location (legacyUpdateVehicle sample_legacy_tick ?v)) = 60"
    by (simp add: legacy_location_speed sample_legacy_vehicle_facts sample_legacy_tick_def)
  have lv: "level (lv_fuel (legacyUpdateVehicle sample_legacy_tick ?v)) = 180 - 17 / 12000"
    by (simp add: legacy_fuel sp sample_legacy_vehicle_facts)
  have sf: "spec_fuelConsumed Driving 60 (17 / 2) deltaSeconds = 1 / 510"
    by (simp add: spec_fuelConsumed_def deltaSeconds_def updateInterval_def)
  show ?thesis unfolding n u sp lv sf by (simp add: sample_legacy_vehicle_facts)
qed

subsection \<open>Idle vehicles\<close>

lemma updateVehicle_idle:
  assumes "state (vstatus v) = Idle"
  shows "speed (vlocation (updateVehicle r v)) = speed (vlocation v)"
    and "level (vfuel (updateVehicle r v)) = level (vfuel v)"
    and "consumption (vfuel (updateVehicle r v)) = 0"
  using assms
  by (simp_all add: updateVehicle_parts updateVehicleLocation_idle updateFuelData_level
      updateFuelData_consumption_idle)

lemma idle_vehicle_keeps:
  assumes "\<forall>k<n. state (vstatus (simulateVehicle r k v)) = Idle" and "k \<le> n"
  shows "speed (vlocation (simulateVehicle r k v)) = speed (vlocation v) \<and>
         level (vfuel (simulateVehicle r k v)) = level (vfuel v) \<and>
         (0 < k \<longrightarrow> consumption (vfuel (simulateVehicle r k v)) = 0)"
  using assms(2)
proof (induction k)
  case 0
  then show ?case by simp
next
  case (Suc k)
  then have idle: "state (vstatus (simulateVehicle r k v)) = Idle" using assms(1) by simp
  from Suc have "speed (vlocation (simulateVehicle r k v)) = speed (vlocation v)"
    and "level (vfuel (simulateVehicle r k v)) = level (vfuel v)" by simp_all
  with updateVehicle_idle [OF idle, of "r k"] show ?case by simp
qed

lemma sample_tick_keeps_state:
  "state (vstatus (updateVehicle sample_tick v)) = state (vstatus v)"
  by (simp add: updateVehicle_def updateVehicleStatus_def Let_def sample_tick_def)

lemma sample_ticks_keep_state:
  "state (vstatus (simulateVehicle (\<lambda>k. sample_tick) n v)) = state (vstatus v)"
  by (induction n) (simp_all add: sample_tick_keeps_state)

lemma idle_vehicle_facts:
  "state (vstatus (newVehicle 0 idle_init 0)) = Idle"
  "speed (vlocation (newVehicle 0 idle_init 0)) = 60"
  "level (vfuel (newVehicle 0 idle_init 0)) = 120"
  by (simp_all add: newVehicle_def idle_init_def sample_init_def vehicleTypes_def)

text \<open>
  What a tick does to an idle vehicle. \<open>updateVehicleLocation\<close> touches the speed only
  inside its test for a driving vehicle and has no other branch, so a vehicle that is idle
  at the start of a tick keeps the speed it has. A vehicle of a fleet that is idle at the
  start of each of \<open>n\<close> consecutive ticks (for instance \<open>5\<close>) shows, after each of them, the
  speed and the fuel level it had before the first, and a fuel consumption of \<open>0\<close>.
\<close>

lemma idle_fleet_keeps:
  assumes "i < length vs"
    and "\<forall>k<n. state (vstatus (simulate r k vs ! i)) = Idle"
  shows "\<forall>k\<le>n. speed (vlocation (simulate r k vs ! i)) = speed (vlocation (vs ! i)) \<and>
                level (vfuel (simulate r k vs ! i)) = level (vfuel (vs ! i)) \<and>
                (0 < k \<longrightarrow> consumption (vfuel (simulate r k vs ! i)) = 0)"
proof (intro allI impI)
  fix k assume k: "k \<le> n"
  have "\<forall>k<n. state (vstatus (simulateVehicle (\<lambda>k. r k i) k (vs ! i))) = Idle"
    using assms by (simp add: simulate_nth)
  from idle_vehicle_keeps [OF this k]
  show "speed (vlocation (simulate r k vs ! i)) = speed (vlocation (vs ! i)) \<and>
                level (vfuel (simulate r k vs ! i)) = level (vfuel (vs ! i)) \<and>
                (0 < k \<longrightarrow> consumption (vfuel (simulate r k vs ! i)) = 0)"
    using assms(1) by (simp add: simulate_nth)
qed

lemma idle_fleet_state:
  "state (vstatus (simulate (\<lambda>k i. sample_tick) k (initializeFleet 0 (\<lambda>i. idle_init)) ! 0)) = Idle"
  by (simp add: simulate_nth initializeFleet_nth sample_ticks_keep_state idle_vehicle_facts)

lemma idle_fleet_keeps_sample:
  "state (vstatus (simulate (\<lambda>k i. sample_tick) 5 (initializeFleet 0 (\<lambda>i. idle_init)) ! 0)) = Idle \<and>
   speed (vlocation (simulate (\<lambda>k i. sample_tick) 5 (initializeFleet 0 (\<lambda>i. idle_init)) ! 0)) = 60 \<and>
   level (vfuel (simulate (\<lambda>k i. sample_tick) 5 (initializeFleet 0 (\<lambda>i. idle_init)) ! 0)) = 120 \<and>
   consumption (vfuel (simulate (\<lambda>k i. sample_tick) 5 (initializeFleet 0 (\<lambda>i. idle_init)) ! 0)) = 0"
proof -
  have l: "0 < length (initializeFleet 0 (\<lambda>i. idle_init))" by simp
  have h: "\<forall>k<5. state (vstatus (simulate (\<lambda>k i. sample_tick) k
      (initializeFleet 0 (\<lambda>i. idle_init)) ! 0)) = Idle"
    by (simp add: idle_fleet_state)
  from idle_fleet_keeps [OF l h] show ?thesis
    by (simp add: idle_fleet_state initializeFleet_nth idle_vehicle_facts)
qed


text \<open>
  \<open>initializeFleet\<close> draws the speed of a vehicle between \<open>20\<close> and \<open>100\<close> km/h whatever
  its state. The tick of class \<^verbatim>\<open>Particles\<close> has the branch that \<open>updateVehicleLocation\<close>
  lacks: it sets the speed of a vehicle whose ignition is off to \<open>0\<close>.
\<close>

lemma legacy_stopped_speed_zero:
  "\<not> ls_ignition (lv_status v) \<Longrightarrow> speed (lv_location (legacyUpdateVehicle r v)) = 0"
  by (simp add: legacy_location_speed)

lemma newVehicle_speed_at_least_20:
  "0 \<le> i_speed r \<Longrightarrow> 20 \<le> speed (vlocation (newVehicle now r i))"
  by (simp add: newVehicle_def split: prod.splits)

text \<open>
  C1 fails on the run-state simulation. The first vehicle of a fleet created with the state
  draw \<open>0.9\<close> and the speed draw \<open>0.5\<close> is idle at \<open>60\<close> km/h, and is still idle at \<open>60\<close>
  km/h after five ticks in which no gate opens: its speed is not \<open>0\<close>.
\<close>

theorem idle_speed_not_zero:
  "state (vstatus (initializeFleet 0 (\<lambda>i. idle_init) ! 0)) = Idle \<and>
   speed (vlocation (initializeFleet 0 (\<lambda>i. idle_init) ! 0)) = 60 \<and>
   state (vstatus (simulate (\<lambda>k i. sample_tick) 5 (initializeFleet 0 (\<lambda>i. idle_init)) ! 0)) = Idle \<and>
   speed (vlocation (simulate (\<lambda>k i. sample_tick) 5 (initializeFleet 0 (\<lambda>i. idle_init)) ! 0)) = 60 \<and>
   speed (vlocation (simulate (\<lambda>k i. sample_tick) 5 (initializeFleet 0 (\<lambda>i. idle_init)) ! 0)) \<noteq> 0"
proof -
  have s: "simulate (\<lambda>k i. sample_tick) 5 (initializeFleet 0 (\<lambda>i. idle_init)) ! 0
      = simulateVehicle (\<lambda>k. sample_tick) 5 (newVehicle 0 idle_init 0)"
    by (simp add: simulate_nth initializeFleet_nth)
  have st: "state (vstatus (simulateVehicle (\<lambda>k. sample_tick) 5 (newVehicle 0 idle_init 0))) = Idle"
    by (simp add: sample_ticks_keep_state idle_vehicle_facts)
  have u: "\<And>v. state (vstatus v) = Idle \<Longrightarrow>
      speed (vlocation (updateVehicle sample_tick v)) = speed (vlocation v)"
    by (rule updateVehicle_idle)
  have sp: "speed (vlocation (simulateVehicle (\<lambda>k. sample_tick) n (newVehicle 0 idle_init 0))) = 60" for n
    by (induction n) (simp_all add: idle_vehicle_facts u sample_ticks_keep_state)
  show ?thesis
    by (simp add: s st sp initializeFleet_nth idle_vehicle_facts)
qed

subsection \<open>Fault codes\<close>

lemma updateEngineData_faultCodes:
  "faultCodes (vengine (updateEngineData r v)) =
     (let fc = faultCodes (vengine v);
          c = faultCatalog ! nat \<lfloor>t_faultPick r * of_nat (length faultCatalog)\<rfloor>
      in if t_faultGate r < 0.001 \<and> length fc < 3 \<and> c \<notin> set fc then fc @ [c] else fc)"
  by (auto simp: updateEngineData_def Let_def)

lemma updateVehicle_faultCodes:
  "faultCodes (vengine (updateVehicle r v)) = faultCodes (vengine (updateEngineData r v))"
  by (simp add: updateVehicle_parts updateEngineData_faultCodes)

lemma updateVehicle_fault_inv: "fault_inv v \<Longrightarrow> fault_inv (updateVehicle r v)"
  by (auto simp: fault_inv_def updateVehicle_faultCodes updateEngineData_faultCodes Let_def)

lemma simulateVehicle_fault_inv: "fault_inv v \<Longrightarrow> fault_inv (simulateVehicle r n v)"
  by (induction n) (simp_all add: updateVehicle_fault_inv)

lemma newVehicle_fault_inv: "fault_inv (newVehicle now r i)"
  by (simp add: fault_inv_def newVehicle_def split: prod.splits)

lemma pick_in_catalog:
  assumes "unit_draw x"
  shows "faultCatalog ! nat \<lfloor>x * of_nat (length faultCatalog)\<rfloor> \<in> set faultCatalog"
proof -
  from assms have "0 \<le> x" "x < 1" by (simp_all add: unit_draw_def)
  then have "0 \<le> x * 5" "x * 5 < 5" by simp_all
  then have "0 \<le> \<lfloor>x * 5\<rfloor>" "\<lfloor>x * 5\<rfloor> < 5" by (simp_all add: floor_less_iff)
  then have "nat \<lfloor>x * 5\<rfloor> < 5" by linarith
  then have "nat \<lfloor>x * of_nat (length faultCatalog)\<rfloor> < length faultCatalog"
    by (simp add: faultCatalog_def)
  then show ?thesis by (rule nth_mem)
qed

text \<open>
  C8. After any number of ticks from the initial fleet, with any random numbers, no
  vehicle holds more than three fault codes or the same code twice. One update of a
  vehicle either leaves the fault codes as they are or appends exactly one code, and it
  appends only when the gate draw is below \<open>0.001\<close>, fewer than three codes are held and
  the code is not held yet; the code is one of the catalog (the pick draw being in
  \<open>[0,1)\<close>).
\<close>

theorem fault_codes_bounded:
  "(\<forall>v \<in> set (simulate r n (initializeFleet now ir)).
      length (faultCodes (vengine v)) \<le> 3 \<and> distinct (faultCodes (vengine v))) \<and>
   (faultCodes (vengine (updateVehicle q w)) = faultCodes (vengine w) \<or>
    (\<exists>c. faultCodes (vengine (updateVehicle q w)) = faultCodes (vengine w) @ [c] \<and>
         c \<notin> set (faultCodes (vengine w)) \<and> length (faultCodes (vengine w)) < 3 \<and>
         t_faultGate q < 0.001 \<and> (unit_draw (t_faultPick q) \<longrightarrow> c \<in> set faultCatalog)))"
proof
  show "\<forall>v \<in> set (simulate r n (initializeFleet now ir)).
      length (faultCodes (vengine v)) \<le> 3 \<and> distinct (faultCodes (vengine v))"
  proof
    fix v assume "v \<in> set (simulate r n (initializeFleet now ir))"
    then obtain i where "v = simulateVehicle (\<lambda>k. r k i) n (newVehicle now (ir i) i)"
      by (rule fleet_member)
    then have "fault_inv v"
      by (simp add: simulateVehicle_fault_inv newVehicle_fault_inv)
    then show "length (faultCodes (vengine v)) \<le> 3 \<and> distinct (faultCodes (vengine v))"
      by (simp add: fault_inv_def)
  qed
next
  show "faultCodes (vengine (updateVehicle q w)) = faultCodes (vengine w) \<or>
    (\<exists>c. faultCodes (vengine (updateVehicle q w)) = faultCodes (vengine w) @ [c] \<and>
         c \<notin> set (faultCodes (vengine w)) \<and> length (faultCodes (vengine w)) < 3 \<and>
         t_faultGate q < 0.001 \<and> (unit_draw (t_faultPick q) \<longrightarrow> c \<in> set faultCatalog))"
    using pick_in_catalog [of "t_faultPick q"]
    by (auto simp: updateVehicle_faultCodes updateEngineData_faultCodes Let_def)
qed

lemma fault_tick_codes:
  "faultCodes (vengine (updateVehicle fault_tick (newVehicle 0 sample_init 0))) = [''P0420'']"
proof -
  have "nat \<lfloor>(1/2 :: real) * 5\<rfloor> = 2" by linarith
  then show ?thesis
    by (simp add: updateVehicle_faultCodes updateEngineData_faultCodes Let_def fault_tick_def
        sample_tick_def newVehicle_def faultCatalog_def split: prod.splits)
qed

theorem fault_codes_bounded_witness:
  "length (faultCodes (vengine (simulate (\<lambda>k i. fault_tick) 5 (initializeFleet 0 (\<lambda>i. sample_init)) ! 0))) \<le> 3 \<and>
   distinct (faultCodes (vengine (simulate (\<lambda>k i. fault_tick) 5 (initializeFleet 0 (\<lambda>i. sample_init)) ! 0))) \<and>
   faultCodes (vengine (updateVehicle fault_tick (newVehicle 0 sample_init 0))) = [''P0420''] \<and>
   ''P0420'' \<in> set faultCatalog"
proof -
  let ?vs = "simulate (\<lambda>k i. fault_tick) 5 (initializeFleet 0 (\<lambda>i. sample_init))"
  have m: "?vs ! 0 \<in> set ?vs" by (rule nth_mem) simp
  have u: "unit_draw (t_faultPick fault_tick)"
    by (simp add: unit_draw_def fault_tick_def)
  from fault_codes_bounded [of "\<lambda>k i. fault_tick" 5 0 "\<lambda>i. sample_init" fault_tick "newVehicle 0 sample_init 0"]
  show ?thesis using m u by (simp add: fault_tick_codes faultCatalog_def)
qed

subsection \<open>Array helpers\<close>

lemma indexOf_absent: "x \<notin> set xs \<Longrightarrow> indexOf xs x = - 1"
  by (induction xs) (auto simp: Let_def)

lemma indexOf_present: "x \<in> set xs \<Longrightarrow> 0 \<le> indexOf xs x"
  by (induction xs) (auto simp: Let_def)

lemma indexOf_ge: "- 1 \<le> indexOf xs x"
  by (induction xs) (auto simp: Let_def)

lemma splice1_indexOf: "x \<in> set xs \<Longrightarrow> splice1 (nat (indexOf xs x)) xs = remove1 x xs"
proof (induction xs)
  case Nil
  then show ?case by simp
next
  case (Cons y ys)
  show ?case
  proof (cases "y = x")
    case True
    then show ?thesis by (simp add: splice1_def)
  next
    case False
    with Cons.prems have mem: "x \<in> set ys" by simp
    then have nn: "0 \<le> indexOf ys x" by (rule indexOf_present)
    then have "nat (indexOf ys x + 1) = Suc (nat (indexOf ys x))" by simp
    moreover from nn have "indexOf ys x \<noteq> - 1" by simp
    ultimately show ?thesis
      using False Cons.IH [OF mem] by (simp add: splice1_def Let_def)
  qed
qed

subsection \<open>Facts about acquire and release\<close>

lemma getActiveObject_empty:
  "inactiveElements s = [] \<Longrightarrow> getActiveObject s = (None, s)"
  by (simp add: getActiveObject_def)

lemma getActiveObject_nonempty:
  "inactiveElements s \<noteq> [] \<Longrightarrow>
   getActiveObject s =
     (Some (last (inactiveElements s)),
      s\<lparr> inactiveElements := butlast (inactiveElements s),
         store := (store s)(last (inactiveElements s) :=
                     (store s (last (inactiveElements s)))\<lparr> isActive := True \<rparr>),
         activeElements := activeElements s @ [last (inactiveElements s)] \<rparr>)"
  by (simp add: getActiveObject_def Let_def)

lemma releaseObject_inactive:
  "\<not> isActive (store s obj) \<Longrightarrow> releaseObject obj s = s"
  by (simp add: releaseObject_def)

lemma releaseObject_active:
  assumes "isActive (store s obj)" and "obj \<in> set (activeElements s)"
  shows "releaseObject obj s =
     s\<lparr> store := (store s)(obj := (store s obj)\<lparr> isActive := False, el_display := ''none'',
                                                 ud_isVisible := False \<rparr>),
        activeElements := remove1 obj (activeElements s),
        inactiveElements := inactiveElements s @ [obj] \<rparr>"
proof -
  from assms(2) have "0 \<le> indexOf (activeElements s) obj" by (rule indexOf_present)
  then have "indexOf (activeElements s) obj > - 1" by simp
  with assms show ?thesis
    by (simp add: releaseObject_def Let_def splice1_indexOf)
qed

lemma releaseObject_flag_off: "\<not> isActive (store (releaseObject obj s) obj)"
  by (simp add: releaseObject_def Let_def)

lemma pool_inv_getActiveObject:
  assumes "pool_inv s"
  shows "pool_inv (snd (getActiveObject s))"
proof (cases "inactiveElements s" rule: rev_cases)
  case Nil
  with assms show ?thesis by (simp add: getActiveObject_empty)
next
  case (snoc ys x)
  from assms have d: "distinct (activeElements s @ inactiveElements s)"
    and u: "set (activeElements s) \<union> set (inactiveElements s) = set (textElementPool s)"
    and fl: "\<forall>obj. isActive (store s obj) = (obj \<in> set (activeElements s))"
    and rest: "distinct (textElementPool s)" "length (textElementPool s) = poolSize s"
    by (simp_all add: pool_inv_def)
  from d snoc have d2: "distinct ((activeElements s @ [x]) @ ys)" by auto
  from u snoc have u2: "set (activeElements s @ [x]) \<union> set ys = set (textElementPool s)"
    by auto
  have g: "snd (getActiveObject s) =
      s\<lparr> inactiveElements := ys,
         store := (store s)(x := (store s x)\<lparr> isActive := True \<rparr>),
         activeElements := activeElements s @ [x] \<rparr>"
    using snoc by (simp add: getActiveObject_def Let_def)
  show ?thesis
    unfolding g using d2 u2 fl rest by (simp add: pool_inv_def)
qed

lemma pool_inv_releaseObject:
  assumes "pool_inv s"
  shows "pool_inv (releaseObject obj s)"
proof (cases "isActive (store s obj)")
  case False
  with assms show ?thesis by (simp add: releaseObject_inactive)
next
  case True
  from assms have d: "distinct (activeElements s @ inactiveElements s)"
    and u: "set (activeElements s) \<union> set (inactiveElements s) = set (textElementPool s)"
    and fl: "\<forall>obj. isActive (store s obj) = (obj \<in> set (activeElements s))"
    and rest: "distinct (textElementPool s)" "length (textElementPool s) = poolSize s"
    by (simp_all add: pool_inv_def)
  from True fl have mem: "obj \<in> set (activeElements s)" by simp
  from d have da: "distinct (activeElements s)" and di: "distinct (inactiveElements s)"
    and dj: "set (activeElements s) \<inter> set (inactiveElements s) = {}" by simp_all
  from mem dj have ni: "obj \<notin> set (inactiveElements s)" by auto
  have sr: "set (remove1 obj (activeElements s)) = set (activeElements s) - {obj}"
    using da by simp
  have "distinct (remove1 obj (activeElements s) @ inactiveElements s @ [obj])"
    using da di dj ni sr by auto
  moreover have "set (remove1 obj (activeElements s)) \<union> set (inactiveElements s @ [obj])
      = set (textElementPool s)"
    using sr u mem by auto
  moreover have "\<forall>r. isActive (((store s)(obj := (store s obj)\<lparr> isActive := False,
        el_display := ''none'', ud_isVisible := False \<rparr>)) r)
      = (r \<in> set (remove1 obj (activeElements s)))"
    using fl sr by auto
  ultimately show ?thesis
    using rest by (simp add: releaseObject_active [OF True mem] pool_inv_def)
qed

subsection \<open>Updates that only rewrite stored objects\<close>

lemma pool_inv_lengths:
  assumes "pool_inv s"
  shows "length (activeElements s) + length (inactiveElements s) = poolSize s"
proof -
  from assms have d: "distinct (activeElements s @ inactiveElements s)"
    and u: "set (activeElements s @ inactiveElements s) = set (textElementPool s)"
    and p: "distinct (textElementPool s)" "length (textElementPool s) = poolSize s"
    by (simp_all add: pool_inv_def)
  have "length (activeElements s @ inactiveElements s) = card (set (activeElements s @ inactiveElements s))"
    using d by (simp only: distinct_card)
  also have "\<dots> = card (set (textElementPool s))" using u by simp
  also have "\<dots> = length (textElementPool s)" using p(1) by (rule distinct_card)
  finally show ?thesis using p(2) by simp
qed

lemma pool_inv_store:
  assumes "pool_inv s" and "\<forall>r. isActive (g r) = isActive (store s r)"
  shows "pool_inv (s\<lparr> store := g \<rparr>)"
  using assms by (simp add: pool_inv_def)

lemma updateContentFrom_shape:
  "updateContentFrom now k objs s = s\<lparr> store := store (updateContentFrom now k objs s) \<rparr>"
proof (induction objs arbitrary: k s)
  case Nil
  show ?case by simp
next
  case (Cons obj objs)
  let ?s1 = "(if k < length (currentMetrics s)
        then updateElementContent now obj (currentMetrics s ! k) s else s)"
  have c: "?s1\<lparr> store := X \<rparr> = s\<lparr> store := X \<rparr>" for X
    by (simp add: updateElementContent_def)
  have "updateContentFrom now (Suc k) objs ?s1
      = ?s1\<lparr> store := store (updateContentFrom now (Suc k) objs ?s1) \<rparr>"
    by (rule Cons.IH)
  then have "updateContentFrom now (Suc k) objs ?s1
      = s\<lparr> store := store (updateContentFrom now (Suc k) objs ?s1) \<rparr>"
    by (simp only: c)
  then show ?case by simp
qed

lemma updateContentFrom_flags:
  "isActive (store (updateContentFrom now k objs s) r) = isActive (store s r)"
  by (induction objs arbitrary: k s) (simp_all add: updateElementContent_def)

lemma updateNonCriticalFrom_shape:
  "updateNonCriticalFrom objs s = s\<lparr> store := store (updateNonCriticalFrom objs s) \<rparr>"
proof (induction objs arbitrary: s)
  case Nil
  show ?case by simp
next
  case (Cons obj objs)
  let ?s1 = "s\<lparr> store := (store s)(obj := lifeStep (store s obj)) \<rparr>"
  have "updateNonCriticalFrom objs ?s1 = ?s1\<lparr> store := store (updateNonCriticalFrom objs ?s1) \<rparr>"
    by (rule Cons.IH)
  then have "updateNonCriticalFrom objs ?s1 = s\<lparr> store := store (updateNonCriticalFrom objs ?s1) \<rparr>"
    by simp
  then show ?case by simp
qed

lemma lifeStep_flags [simp]: "isActive (lifeStep x) = isActive x"
  by (simp add: lifeStep_def Let_def)

lemma updateNonCriticalFrom_flags:
  "isActive (store (updateNonCriticalFrom objs s) r) = isActive (store s r)"
  by (induction objs arbitrary: s) simp_all

lemma criticalStep_flags [simp]: "isActive (criticalStep c fr cam k x) = isActive x"
  by (simp add: criticalStep_def Let_def split: prod.splits)

lemma updateCriticalFrom_shape:
  "updateCriticalFrom fr cam k objs s = s\<lparr> store := store (updateCriticalFrom fr cam k objs s) \<rparr>"
proof (induction objs arbitrary: k s)
  case Nil
  show ?case by simp
next
  case (Cons obj objs)
  let ?s1 = "s\<lparr> store := (store s)(obj := criticalStep (cullingEnabled s) fr cam k (store s obj)) \<rparr>"
  have "updateCriticalFrom fr cam (Suc k) objs ?s1
      = ?s1\<lparr> store := store (updateCriticalFrom fr cam (Suc k) objs ?s1) \<rparr>"
    by (rule Cons.IH)
  then have "updateCriticalFrom fr cam (Suc k) objs ?s1
      = s\<lparr> store := store (updateCriticalFrom fr cam (Suc k) objs ?s1) \<rparr>"
    by simp
  then show ?case by simp
qed

lemma updateCriticalFrom_flags:
  "isActive (store (updateCriticalFrom fr cam k objs s) r) = isActive (store s r)"
  by (induction objs arbitrary: k s) simp_all

lemma pool_inv_updateContentFrom:
  "pool_inv s \<Longrightarrow> pool_inv (updateContentFrom now k objs s)"
  by (subst updateContentFrom_shape) (simp add: pool_inv_store updateContentFrom_flags)

lemma pool_inv_updateNonCritical:
  "pool_inv s \<Longrightarrow> pool_inv (updateNonCritical s)"
  unfolding updateNonCritical_def
  by (subst updateNonCriticalFrom_shape) (simp add: pool_inv_store updateNonCriticalFrom_flags)

lemma pool_inv_updateCritical:
  "pool_inv s \<Longrightarrow> pool_inv (updateCritical fr cam s)"
  unfolding updateCritical_def
  by (subst updateCriticalFrom_shape) (simp add: pool_inv_store updateCriticalFrom_flags)

subsection \<open>The loops of updateDisplayMetrics\<close>

lemma releaseExcess_returns:
  assumes "pool_inv s" and "0 \<le> textCount s"
  shows "\<exists>s'. releaseExcess s = Some (Inr s') \<and> pool_inv s' \<and>
           int (length (activeElements s')) = min (int (length (activeElements s))) (textCount s) \<and>
           s' = s\<lparr> store := store s', activeElements := activeElements s',
                    inactiveElements := inactiveElements s' \<rparr>"
  using assms
proof (induction "length (activeElements s)" arbitrary: s)
  case 0
  then show ?case by (subst releaseExcess.simps) simp
next
  case (Suc n)
  show ?case
  proof (cases "int (length (activeElements s)) > textCount s")
    case False
    with Suc.prems show ?thesis by (subst releaseExcess.simps) simp
  next
    case True
    from Suc.hyps(2) have ne: "activeElements s \<noteq> []" by auto
    let ?x = "last (activeElements s)"
    let ?s1 = "releaseObject ?x s"
    from ne have mem: "?x \<in> set (activeElements s)" by simp
    with Suc.prems(1) have act: "isActive (store s ?x)" by (simp add: pool_inv_def)
    from Suc.prems(1) have da: "distinct (activeElements s)" by (simp add: pool_inv_def)
    have s1: "?s1 = s\<lparr> store := (store s)(?x := (store s ?x)\<lparr> isActive := False,
                  el_display := ''none'', ud_isVisible := False \<rparr>),
                activeElements := remove1 ?x (activeElements s),
                inactiveElements := inactiveElements s @ [?x] \<rparr>"
      by (rule releaseObject_active [OF act mem])
    have len: "length (activeElements ?s1) = n"
      using mem Suc.hyps(2) by (simp add: s1 length_remove1)
    have inv1: "pool_inv ?s1" using Suc.prems(1) by (rule pool_inv_releaseObject)
    have tc1: "textCount ?s1 = textCount s" by (simp add: s1)
    from Suc.hyps(1) [of ?s1] len inv1 tc1 Suc.prems(2)
    obtain s' where r: "releaseExcess ?s1 = Some (Inr s')" and i: "pool_inv s'"
      and l: "int (length (activeElements s')) = min (int n) (textCount s)"
      and e: "s' = ?s1\<lparr> store := store s', activeElements := activeElements s',
                    inactiveElements := inactiveElements s' \<rparr>"
      by auto
    have "releaseExcess s = Some (Inr s')"
      using True ne r by (subst releaseExcess.simps) simp
    moreover have "int (length (activeElements s')) = min (int (length (activeElements s))) (textCount s)"
      using l True Suc.hyps(2) by simp
    moreover have "s' = s\<lparr> store := store s', activeElements := activeElements s',
                    inactiveElements := inactiveElements s' \<rparr>"
      by (subst e, subst s1) simp
    ultimately show ?thesis using i by blast
  qed
qed

lemma activateNeeded_result:
  assumes "pool_inv s"
  shows "pool_inv (activateNeeded s) \<and>
         int (length (activeElements (activateNeeded s))) =
           (if int (length (activeElements s)) < min (textCount s) (int (length (currentMetrics s)))
            then min (min (textCount s) (int (length (currentMetrics s)))) (int (poolSize s))
            else int (length (activeElements s))) \<and>
         activateNeeded s = s\<lparr> store := store (activateNeeded s),
                    activeElements := activeElements (activateNeeded s),
                    inactiveElements := inactiveElements (activateNeeded s) \<rparr>"
  using assms
proof (induction s rule: activateNeeded.induct)
  case (1 s)
  let ?target = "min (textCount s) (int (length (currentMetrics s)))"
  show ?case
  proof (cases "int (length (activeElements s)) < ?target")
    case False
    then have "activateNeeded s = s" by (subst activateNeeded.simps) auto
    with False "1.prems" show ?thesis by auto
  next
    case True
    note lt = True
    have total: "length (activeElements s) + length (inactiveElements s) = poolSize s"
      using "1.prems" by (rule pool_inv_lengths)
    show ?thesis
    proof (cases "inactiveElements s" rule: rev_cases)
      case Nil
      then have "activateNeeded s = s"
        using lt by (subst activateNeeded.simps) (simp add: getActiveObject_empty)
      moreover from Nil total have "int (poolSize s) = int (length (activeElements s))" by simp
      ultimately show ?thesis using lt "1.prems" by simp
    next
      case (snoc ys x)
      let ?s1 = "s\<lparr> inactiveElements := ys,
           store := (store s)(x := (store s x)\<lparr> isActive := True \<rparr>),
           activeElements := activeElements s @ [x] \<rparr>"
      let ?s2 = "?s1\<lparr> store := (store ?s1)(x := (store ?s1 x)\<lparr> el_display := ''block'',
                        ud_isVisible := True \<rparr>) \<rparr>"
      have g: "getActiveObject s = (Some x, ?s1)"
        using snoc by (simp add: getActiveObject_def Let_def)
      have "pool_inv (snd (getActiveObject s))" using "1.prems" by (rule pool_inv_getActiveObject)
      then have inv1: "pool_inv ?s1" by (simp only: g snd_conv)
      have inv2: "pool_inv ?s2" using inv1 by (rule pool_inv_store) simp
      have step: "activateNeeded s = activateNeeded ?s2"
        using lt g by (subst activateNeeded.simps) simp
      have ih: "pool_inv (activateNeeded ?s2) \<and>
         int (length (activeElements (activateNeeded ?s2))) =
           (if int (length (activeElements ?s2)) < min (textCount ?s2) (int (length (currentMetrics ?s2)))
            then min (min (textCount ?s2) (int (length (currentMetrics ?s2)))) (int (poolSize ?s2))
            else int (length (activeElements ?s2))) \<and>
         activateNeeded ?s2 = ?s2\<lparr> store := store (activateNeeded ?s2),
                    activeElements := activeElements (activateNeeded ?s2),
                    inactiveElements := inactiveElements (activateNeeded ?s2) \<rparr>"
        using "1.IH" [OF lt g [symmetric] refl inv2] .
      have f2: "textCount ?s2 = textCount s" "currentMetrics ?s2 = currentMetrics s"
        "poolSize ?s2 = poolSize s" "length (activeElements ?s2) = Suc (length (activeElements s))"
        by simp_all
      from snoc total have room: "int (length (activeElements s)) + 1 \<le> int (poolSize s)" by simp
      define la where "la = int (length (activeElements (activateNeeded ?s2)))"
      have c0: "la = (if int (Suc (length (activeElements s))) < ?target
            then min ?target (int (poolSize s)) else int (Suc (length (activeElements s))))"
        using conjunct1 [OF conjunct2 [OF ih]] unfolding f2 la_def .
      have "la = min ?target (int (poolSize s))"
        using c0 lt room by (simp add: min_def split: if_splits)
      then have cnt: "int (length (activeElements (activateNeeded ?s2))) = min ?target (int (poolSize s))"
        by (simp only: la_def)
      have shape: "activateNeeded ?s2 = s\<lparr> store := store (activateNeeded ?s2),
                    activeElements := activeElements (activateNeeded ?s2),
                    inactiveElements := inactiveElements (activateNeeded ?s2) \<rparr>"
        by (subst conjunct2 [OF conjunct2 [OF ih]]) simp
      have i3: "pool_inv (activateNeeded ?s2)" using ih by (rule conjunct1)
      have c3: "int (length (activeElements (activateNeeded s))) =
           (if int (length (activeElements s)) < ?target
            then min ?target (int (poolSize s)) else int (length (activeElements s)))"
        using cnt lt by (simp only: step if_True)
      have sh3: "activateNeeded s = s\<lparr> store := store (activateNeeded s),
                    activeElements := activeElements (activateNeeded s),
                    inactiveElements := inactiveElements (activateNeeded s) \<rparr>"
        using shape by (simp only: step)
      show ?thesis
        using i3 c3 sh3 by (simp only: step simp_thms)
    qed
  qed
qed

subsection \<open>Layout of the metric list\<close>

lemma foldl_pushVehicleMetrics:
  "foldl (pushVehicleMetrics f) acc vs =
     acc @ concat (map (\<lambda>v. [locationMetric f v, fuelMetric f v, engineMetric f v, driverMetric f v]) vs)"
  by (induction vs arbitrary: acc) (simp_all add: pushVehicleMetrics_def)

lemma getDisplayMetrics_concat:
  "getDisplayMetrics f vs =
     concat (map (\<lambda>v. [locationMetric f v, fuelMetric f v, engineMetric f v, driverMetric f v]) vs)
       @ [fleetMetric vs]"
  by (simp add: getDisplayMetrics_def foldl_pushVehicleMetrics)

lemma length_concat_quads:
  "length (concat (map (\<lambda>v. [a v, b v, c v, d v]) vs)) = 4 * length vs"
  by (induction vs) simp_all

lemma length_getDisplayMetrics: "length (getDisplayMetrics f vs) = 4 * length vs + 1"
  by (simp add: getDisplayMetrics_concat length_concat_quads)

lemma concat_quads_nth:
  assumes "i < length vs" and "j < 4"
  shows "concat (map (\<lambda>v. [a v, b v, c v, d v]) vs) ! (4 * i + j) = [a (vs ! i), b (vs ! i), c (vs ! i), d (vs ! i)] ! j"
  using assms
proof (induction vs arbitrary: i)
  case Nil
  then show ?case by simp
next
  case (Cons v vs)
  show ?case
  proof (cases i)
    case 0
    from Cons.prems(2) have "j = 0 \<or> j = 1 \<or> j = 2 \<or> j = 3" by arith
    with 0 show ?thesis by auto
  next
    case (Suc i')
    with Cons.prems have "i' < length vs" by simp
    from Cons.IH [OF this Cons.prems(2)]
    have ih: "concat (map (\<lambda>v. [a v, b v, c v, d v]) vs) ! (4 * i' + j)
        = [a (vs ! i'), b (vs ! i'), c (vs ! i'), d (vs ! i')] ! j" .
    have "([a v, b v, c v, d v] @ concat (map (\<lambda>v. [a v, b v, c v, d v]) vs))
            ! (length [a v, b v, c v, d v] + (4 * i' + j))
        = concat (map (\<lambda>v. [a v, b v, c v, d v]) vs) ! (4 * i' + j)"
      by (rule nth_append_length_plus)
    with ih Suc
    have "([a v, b v, c v, d v] @ concat (map (\<lambda>v. [a v, b v, c v, d v]) vs)) ! (4 + (4 * i' + j))
        = [a ((v # vs) ! i), b ((v # vs) ! i), c ((v # vs) ! i), d ((v # vs) ! i)] ! j"
      by simp
    moreover have "4 * i + j = 4 + (4 * i' + j)" using Suc by simp
    ultimately show ?thesis by simp
  qed
qed

subsection \<open>Reconciliation\<close>

lemma updateDisplayMetrics_result:
  assumes "pool_inv s" and "0 \<le> textCount s"
  shows "\<exists>s'. updateDisplayMetrics f now s = Some (Inr s') \<and> pool_inv s' \<and>
           textCount s' = textCount s \<and> poolSize s' = poolSize s \<and> nav s' = nav s \<and>
           vehicles s' = vehicles s \<and>
           currentMetrics s' = getDisplayMetrics f (vehicles s) \<and>
           int (length (activeElements s')) =
             (if min (int (length (activeElements s))) (textCount s)
                   < min (textCount s) (int (length (getDisplayMetrics f (vehicles s))))
              then min (min (textCount s) (int (length (getDisplayMetrics f (vehicles s)))))
                       (int (poolSize s))
              else min (int (length (activeElements s))) (textCount s))"
proof -
  let ?s1 = "s\<lparr> currentMetrics := getDisplayMetrics f (vehicles s) \<rparr>"
  have inv1: "pool_inv ?s1" using assms(1) by (simp add: pool_inv_def)
  have tc1: "0 \<le> textCount ?s1" using assms(2) by simp
  from releaseExcess_returns [OF inv1 tc1]
  obtain s2 where r: "releaseExcess ?s1 = Some (Inr s2)" and inv2: "pool_inv s2"
    and l2: "int (length (activeElements s2)) = min (int (length (activeElements ?s1))) (textCount ?s1)"
    and e2: "s2 = ?s1\<lparr> store := store s2, activeElements := activeElements s2,
                    inactiveElements := inactiveElements s2 \<rparr>"
    by blast
  have f2: "textCount s2 = textCount s" "poolSize s2 = poolSize s" "nav s2 = nav s"
    "vehicles s2 = vehicles s" "currentMetrics s2 = getDisplayMetrics f (vehicles s)"
    by (subst e2, simp)+
  let ?s3 = "activateNeeded s2"
  from activateNeeded_result [OF inv2]
  have inv3: "pool_inv ?s3"
    and l3: "int (length (activeElements ?s3)) =
           (if int (length (activeElements s2)) < min (textCount s2) (int (length (currentMetrics s2)))
            then min (min (textCount s2) (int (length (currentMetrics s2)))) (int (poolSize s2))
            else int (length (activeElements s2)))"
    and e3: "?s3 = s2\<lparr> store := store ?s3, activeElements := activeElements ?s3,
                    inactiveElements := inactiveElements ?s3 \<rparr>"
    by blast+
  have f3: "textCount ?s3 = textCount s" "poolSize ?s3 = poolSize s" "nav ?s3 = nav s"
    "vehicles ?s3 = vehicles s" "currentMetrics ?s3 = getDisplayMetrics f (vehicles s)"
    by (subst e3, simp add: f2)+
  let ?s4 = "updateContentFrom now 0 (activeElements ?s3) ?s3"
  have e4: "?s4 = ?s3\<lparr> store := store ?s4 \<rparr>" by (rule updateContentFrom_shape)
  have inv4: "pool_inv ?s4" using inv3 by (rule pool_inv_updateContentFrom)
  have f4: "textCount ?s4 = textCount s" "poolSize ?s4 = poolSize s" "nav ?s4 = nav s"
    "vehicles ?s4 = vehicles s" "currentMetrics ?s4 = getDisplayMetrics f (vehicles s)"
    "activeElements ?s4 = activeElements ?s3"
    by (subst e4, simp add: f3)+
  have res: "updateDisplayMetrics f now s = Some (Inr ?s4)"
    by (simp add: updateDisplayMetrics_def Let_def r)
  have cnt: "int (length (activeElements ?s4)) =
             (if min (int (length (activeElements s))) (textCount s)
                   < min (textCount s) (int (length (getDisplayMetrics f (vehicles s))))
              then min (min (textCount s) (int (length (getDisplayMetrics f (vehicles s)))))
                       (int (poolSize s))
              else min (int (length (activeElements s))) (textCount s))"
  proof -
    have l2': "int (length (activeElements s2)) = min (int (length (activeElements s))) (textCount s)"
      using l2 by simp
    show ?thesis using l3 unfolding f4 f2 l2' .
  qed
  show ?thesis using res inv4 f4 cnt by blast
qed

subsection \<open>The system invariant\<close>

lemma getOptimalTextCount_range: "12 \<le> getOptimalTextCount n \<and> getOptimalTextCount n \<le> 24"
  by (simp add: getOptimalTextCount_def Let_def)

lemma sys_inv_store:
  assumes "sys_inv s" and "\<forall>r. isActive (g r) = isActive (store s r)"
  shows "sys_inv (s\<lparr> store := g \<rparr>)"
  using assms by (simp add: sys_inv_def pool_inv_def)

lemma sys_inv_tick: "sys_inv s \<Longrightarrow> sys_inv (s\<lparr> vehicles := updateVehicleData r (vehicles s) \<rparr>)"
  by (simp add: sys_inv_def pool_inv_def updateVehicleData_def)

lemma sys_inv_updateTextContent: "sys_inv s \<Longrightarrow> sys_inv (updateTextContent f now s)"
proof -
  assume a: "sys_inv s"
  let ?s1 = "s\<lparr> currentMetrics := getDisplayMetrics f (vehicles s) \<rparr>"
  have i1: "sys_inv ?s1" using a by (simp add: sys_inv_def pool_inv_def)
  have "sys_inv (?s1\<lparr> store := store (updateContentFrom now 0 (activeElements ?s1) ?s1) \<rparr>)"
    using i1 by (rule sys_inv_store) (simp add: updateContentFrom_flags)
  then have "sys_inv (updateContentFrom now 0 (activeElements ?s1) ?s1)"
    by (simp only: updateContentFrom_shape [symmetric])
  then show ?thesis by (simp add: updateTextContent_def Let_def)
qed

lemma checkPerformance_textCount:
  "textCount (checkPerformance now s) =
     (let fps = measureFPS (frameCount s) (now - lastFPSCheck s)
      in if js_less fps 30 \<and> textCount s > 8 then max 8 (textCount s - 2)
         else if js_greater fps 50 \<and> textCount s < getOptimalTextCount (nav s)
         then min (getOptimalTextCount (nav s)) (textCount s + 1)
         else textCount s)"
  by (simp add: checkPerformance_def Let_def)

lemma checkPerformance_shape:
  "checkPerformance now s =
     s\<lparr> currentFPS := measureFPS (frameCount s) (now - lastFPSCheck s),
        textCount := textCount (checkPerformance now s),
        frameCount := 0, lastFPSCheck := now \<rparr>"
  by (simp add: checkPerformance_def Let_def)

lemma sys_inv_checkPerformance: "sys_inv s \<Longrightarrow> sys_inv (checkPerformance now s)"
proof -
  assume a: "sys_inv s"
  then have b: "8 \<le> textCount s" "textCount s \<le> getOptimalTextCount (nav s)"
    by (simp_all add: sys_inv_def)
  have t: "8 \<le> textCount (checkPerformance now s) \<and>
      textCount (checkPerformance now s) \<le> getOptimalTextCount (nav s)"
    using b by (simp add: checkPerformance_textCount Let_def)
  show ?thesis
    by (subst checkPerformance_shape) (use a t in \<open>simp add: sys_inv_def pool_inv_def\<close>)
qed

lemma sys_inv_updateNonCritical: "sys_inv s \<Longrightarrow> sys_inv (updateNonCritical s)"
  unfolding updateNonCritical_def
  by (subst updateNonCriticalFrom_shape) (simp add: sys_inv_store updateNonCriticalFrom_flags)

lemma sys_inv_updateCritical: "sys_inv s \<Longrightarrow> sys_inv (updateCritical fr cam s)"
  unfolding updateCritical_def
  by (subst updateCriticalFrom_shape) (simp add: sys_inv_store updateCriticalFrom_flags)

lemma sys_inv_frameCount: "sys_inv s \<Longrightarrow> sys_inv (s\<lparr> frameCount := n \<rparr>)"
  by (simp add: sys_inv_def pool_inv_def)

lemma sys_inv_update: "sys_inv s \<Longrightarrow> sys_inv (update fr s)"
  by (simp add: update_def Let_def sys_inv_frameCount sys_inv_updateNonCritical
      sys_inv_updateCritical split: option.splits)

lemma getActiveObject_shape:
  "snd (getActiveObject s) =
     s\<lparr> store := store (snd (getActiveObject s)),
        activeElements := activeElements (snd (getActiveObject s)),
        inactiveElements := inactiveElements (snd (getActiveObject s)) \<rparr>"
  by (simp add: getActiveObject_def Let_def)

lemma releaseObject_shape:
  "releaseObject obj s =
     s\<lparr> store := store (releaseObject obj s),
        activeElements := activeElements (releaseObject obj s),
        inactiveElements := inactiveElements (releaseObject obj s) \<rparr>"
  by (simp add: releaseObject_def Let_def)

lemma sys_inv_pool:
  assumes "sys_inv s" and "pool_inv (s\<lparr> store := g, activeElements := a, inactiveElements := i \<rparr>)"
  shows "sys_inv (s\<lparr> store := g, activeElements := a, inactiveElements := i \<rparr>)"
  using assms by (simp add: sys_inv_def)

lemma sys_inv_getActiveObject: "sys_inv s \<Longrightarrow> sys_inv (snd (getActiveObject s))"
proof -
  assume a: "sys_inv s"
  then have "pool_inv (snd (getActiveObject s))" by (simp add: sys_inv_def pool_inv_getActiveObject)
  then have "pool_inv (s\<lparr> store := store (snd (getActiveObject s)),
        activeElements := activeElements (snd (getActiveObject s)),
        inactiveElements := inactiveElements (snd (getActiveObject s)) \<rparr>)"
    by (simp only: getActiveObject_shape [symmetric])
  with a have "sys_inv (s\<lparr> store := store (snd (getActiveObject s)),
        activeElements := activeElements (snd (getActiveObject s)),
        inactiveElements := inactiveElements (snd (getActiveObject s)) \<rparr>)"
    by (rule sys_inv_pool)
  then show ?thesis by (simp only: getActiveObject_shape [symmetric])
qed

lemma sys_inv_releaseObject: "sys_inv s \<Longrightarrow> sys_inv (releaseObject obj s)"
proof -
  assume a: "sys_inv s"
  then have "pool_inv (releaseObject obj s)" by (simp add: sys_inv_def pool_inv_releaseObject)
  then have "pool_inv (s\<lparr> store := store (releaseObject obj s),
        activeElements := activeElements (releaseObject obj s),
        inactiveElements := inactiveElements (releaseObject obj s) \<rparr>)"
    by (simp only: releaseObject_shape [symmetric])
  with a have "sys_inv (s\<lparr> store := store (releaseObject obj s),
        activeElements := activeElements (releaseObject obj s),
        inactiveElements := inactiveElements (releaseObject obj s) \<rparr>)"
    by (rule sys_inv_pool)
  then show ?thesis by (simp only: releaseObject_shape [symmetric])
qed

lemma sys_inv_updateDisplayMetrics:
  assumes "sys_inv s"
  shows "\<exists>s'. updateDisplayMetrics f now s = Some (Inr s') \<and> sys_inv s' \<and>
           currentMetrics s' = getDisplayMetrics f (vehicles s) \<and>
           textCount s' = textCount s \<and>
           int (length (activeElements s')) = textCount s"
proof -
  from assms have p: "pool_inv s" and n: "poolSize s = 32" and t: "8 \<le> textCount s"
    "textCount s \<le> getOptimalTextCount (nav s)" and v: "length (vehicles s) = 12"
    by (simp_all add: sys_inv_def)
  from t have t0: "0 \<le> textCount s" by simp
  from t getOptimalTextCount_range [of "nav s"] have t24: "textCount s \<le> 24" by simp
  have m: "int (length (getDisplayMetrics f (vehicles s))) = 49"
    by (simp add: length_getDisplayMetrics v)
  from updateDisplayMetrics_result [OF p t0, of f now]
  obtain s' where r: "updateDisplayMetrics f now s = Some (Inr s')" and i: "pool_inv s'"
    and f: "textCount s' = textCount s" "poolSize s' = poolSize s" "nav s' = nav s"
      "vehicles s' = vehicles s" "currentMetrics s' = getDisplayMetrics f (vehicles s)"
    and c: "int (length (activeElements s')) =
             (if min (int (length (activeElements s))) (textCount s)
                   < min (textCount s) (int (length (getDisplayMetrics f (vehicles s))))
              then min (min (textCount s) (int (length (getDisplayMetrics f (vehicles s)))))
                       (int (poolSize s))
              else min (int (length (activeElements s))) (textCount s))"
    by blast
  have "int (length (activeElements s')) = textCount s"
    using c t24 t unfolding m n by (simp add: min_def split: if_splits)
  moreover have "sys_inv s'" using i f n t v by (simp add: sys_inv_def)
  ultimately show ?thesis using r f by blast
qed

lemma perform_inv:
  assumes "sys_inv s"
  shows "\<exists>s'. perform a s = Some (Inr s') \<and> sys_inv s'"
proof (cases a)
  case (Tick r)
  with assms show ?thesis by (simp add: sys_inv_tick)
next
  case (UpdateTextContent f now)
  with assms show ?thesis by (simp add: sys_inv_updateTextContent)
next
  case (CheckPerformance now)
  with assms show ?thesis by (simp add: sys_inv_checkPerformance)
next
  case (Update fr)
  with assms show ?thesis by (simp add: sys_inv_update)
next
  case UpdateNonCritical
  with assms show ?thesis by (simp add: sys_inv_updateNonCritical)
next
  case GetActiveObject
  with assms show ?thesis by (simp add: sys_inv_getActiveObject)
next
  case (ReleaseObject obj)
  with assms show ?thesis by (simp add: sys_inv_releaseObject)
next
  case (UpdateDisplayMetrics f now)
  with sys_inv_updateDisplayMetrics [OF assms, of f now] show ?thesis by auto
qed

lemma run_inv:
  assumes "sys_inv s"
  shows "\<exists>s'. run acts s = Some (Inr s') \<and> sys_inv s'"
  using assms
proof (induction acts arbitrary: s)
  case Nil
  then show ?case by simp
next
  case (Cons a acts)
  from perform_inv [OF Cons.prems, of a] obtain s1 where
    p: "perform a s = Some (Inr s1)" and i: "sys_inv s1" by blast
  from Cons.IH [OF i] p show ?case by simp
qed

subsection \<open>The constructed instance\<close>

lemma createPooledObject_flag [simp]: "\<not> isActive (createPooledObject r i)"
  by (simp add: createPooledObject_def Let_def)

lemma createObjectPoolFrom_flags:
  "isActive (store (createObjectPoolFrom r i k s) x)
     = (\<not> (i \<le> x \<and> x < i + k) \<and> isActive (store s x))"
proof (induction k arbitrary: i s)
  case 0
  show ?case by simp
next
  case (Suc k)
  show ?case
    by (simp only: createObjectPoolFrom.simps Suc.IH) auto
qed

lemma createObjectPoolFrom_shape:
  "createObjectPoolFrom r i k s =
     s\<lparr> store := store (createObjectPoolFrom r i k s),
        textElementPool := textElementPool s @ [i..<i + k],
        inactiveElements := inactiveElements s @ [i..<i + k] \<rparr>"
proof (induction k arbitrary: i s)
  case 0
  show ?case by simp
next
  case (Suc k)
  let ?s1 = "s\<lparr> store := (store s)(i := createPooledObject (r i) i),
           textElementPool := textElementPool s @ [i],
           inactiveElements := inactiveElements s @ [i] \<rparr>"
  let ?res = "createObjectPoolFrom r (Suc i) k ?s1"
  have u: "[i..<Suc (i + k)] = i # [Suc i..<Suc (i + k)]" by (simp add: upt_conv_Cons)
  have "?res = ?s1\<lparr> store := store ?res,
        textElementPool := textElementPool ?s1 @ [Suc i..<Suc i + k],
        inactiveElements := inactiveElements ?s1 @ [Suc i..<Suc i + k] \<rparr>"
    by (rule Suc.IH)
  then have "?res = s\<lparr> store := store ?res,
        textElementPool := textElementPool s @ [i..<Suc (i + k)],
        inactiveElements := inactiveElements s @ [i..<Suc (i + k)] \<rparr>"
    by (simp add: u del: upt_Suc)
  then show ?case by (simp del: upt_Suc)
qed

lemma sys_inv_createObjectPool:
  assumes "activeElements s = []" and "inactiveElements s = []" and "textElementPool s = []"
    and "\<forall>x. \<not> isActive (store s x)"
    and "poolSize s = 32" and "8 \<le> textCount s" and "textCount s \<le> getOptimalTextCount (nav s)"
    and "length (vehicles s) = 12"
  shows "sys_inv (createObjectPool mr s)"
proof -
  let ?s1 = "createObjectPoolFrom mr 0 (poolSize s) s"
  have fl: "\<forall>x. \<not> isActive (store ?s1 x)"
    using assms(4) by (simp add: createObjectPoolFrom_flags)
  have "sys_inv (s\<lparr> store := store ?s1,
        textElementPool := textElementPool s @ [0..<0 + poolSize s],
        inactiveElements := inactiveElements s @ [0..<0 + poolSize s] \<rparr>)"
    using assms fl by (simp add: sys_inv_def pool_inv_def del: upt_Suc)
  then have "sys_inv ?s1" by (simp only: createObjectPoolFrom_shape [symmetric])
  then show ?thesis by (simp only: createObjectPool_def)
qed

lemma sys_inv_construct: "sys_inv (construct n f now pnow ir mr)"
proof -
  have "sys_inv (createObjectPool mr
     \<lparr> nav = n, textCount = getOptimalTextCount n, poolSize = 32,
                 cullingEnabled = True, store = (\<lambda>_. unallocated), textElementPool = [],
                 activeElements = [], inactiveElements = [],
                 vehicles = initializeFleet now ir, currentMetrics = [], frameCount = 0,
                 lastFPSCheck = pnow, currentFPS = Num 60 \<rparr>)"
    using getOptimalTextCount_range [of n]
    by (intro sys_inv_createObjectPool) (simp_all add: unallocated_def)
  then show ?thesis
    by (simp add: construct_def Let_def sys_inv_updateTextContent)
qed

lemma textCount_updateTextContent [simp]:
  "textCount (updateTextContent f now s) = textCount s"
  unfolding updateTextContent_def Let_def
  by (subst updateContentFrom_shape) simp

lemma textCount_createObjectPool [simp]:
  "textCount (createObjectPool mr s) = textCount s"
  unfolding createObjectPool_def
  by (subst createObjectPoolFrom_shape) simp

lemma textCount_construct: "textCount (construct n f now pnow ir mr) = getOptimalTextCount n"
  by (simp add: construct_def Let_def)

lemma updateTextContent_pool [simp]:
  "activeElements (updateTextContent f now s) = activeElements s"
  "inactiveElements (updateTextContent f now s) = inactiveElements s"
  unfolding updateTextContent_def Let_def
  by (subst updateContentFrom_shape, simp)+

lemma createObjectPool_pool:
  "activeElements (createObjectPool mr s) = activeElements s"
  "inactiveElements (createObjectPool mr s) = inactiveElements s @ [0..<poolSize s]"
  unfolding createObjectPool_def
  by (subst createObjectPoolFrom_shape, simp del: upt_Suc)+

lemma construct_pool:
  "activeElements (construct n f now pnow ir mr) = []"
  "inactiveElements (construct n f now pnow ir mr) = [0..<32]"
  by (simp_all add: construct_def Let_def createObjectPool_pool del: upt_Suc)

lemma construct_flags: "\<not> isActive (store (construct n f now pnow ir mr) obj)"
  using sys_inv_construct [of n f now pnow ir mr]
  by (simp add: sys_inv_def pool_inv_def construct_pool)

subsection \<open>Acquire and release\<close>

text \<open>
  C5. \<open>getActiveObject\<close> returns \<open>None\<close> (JavaScript's \<^verbatim>\<open>null\<close>) exactly when
  \<open>inactiveElements\<close> is empty, and then leaves the instance as it is; otherwise it
  returns the last inactive object, flagged active and moved to \<open>activeElements\<close>. It
  has no other outcome. \<open>releaseObject\<close> on an object that is already inactive (its flag
  is off; in a partitioned pool, it is in \<open>inactiveElements\<close>) returns the instance
  unchanged, so releasing twice is the same as releasing once.
\<close>

theorem acquire_and_release:
  "(fst (getActiveObject s) = None) = (inactiveElements s = []) \<and>
   (inactiveElements s = [] \<longrightarrow> getActiveObject s = (None, s)) \<and>
   (inactiveElements s \<noteq> [] \<longrightarrow>
      fst (getActiveObject s) = Some (last (inactiveElements s)) \<and>
      isActive (store (snd (getActiveObject s)) (last (inactiveElements s))) \<and>
      activeElements (snd (getActiveObject s)) = activeElements s @ [last (inactiveElements s)] \<and>
      inactiveElements (snd (getActiveObject s)) = butlast (inactiveElements s)) \<and>
   (\<not> isActive (store s obj) \<longrightarrow> releaseObject obj s = s) \<and>
   (pool_inv s \<and> obj \<in> set (inactiveElements s) \<longrightarrow> releaseObject obj s = s) \<and>
   releaseObject obj (releaseObject obj s) = releaseObject obj s"
proof -
  have a: "(fst (getActiveObject s) = None) = (inactiveElements s = [])"
    by (simp add: getActiveObject_def Let_def)
  have b: "inactiveElements s \<noteq> [] \<longrightarrow>
      fst (getActiveObject s) = Some (last (inactiveElements s)) \<and>
      isActive (store (snd (getActiveObject s)) (last (inactiveElements s))) \<and>
      activeElements (snd (getActiveObject s)) = activeElements s @ [last (inactiveElements s)] \<and>
      inactiveElements (snd (getActiveObject s)) = butlast (inactiveElements s)"
    by (simp add: getActiveObject_nonempty)
  have c: "pool_inv s \<and> obj \<in> set (inactiveElements s) \<longrightarrow> releaseObject obj s = s"
  proof
    assume h: "pool_inv s \<and> obj \<in> set (inactiveElements s)"
    then have "obj \<notin> set (activeElements s)" by (auto simp: pool_inv_def)
    with h have "\<not> isActive (store s obj)" by (simp add: pool_inv_def)
    then show "releaseObject obj s = s" by (rule releaseObject_inactive)
  qed
  have d: "releaseObject obj (releaseObject obj s) = releaseObject obj s"
    by (rule releaseObject_inactive) (rule releaseObject_flag_off)
  show ?thesis
    using a b c d by (simp add: getActiveObject_empty releaseObject_inactive)
qed

theorem acquire_and_release_witness:
  "fst (getActiveObject sample_particles) = Some 31 \<and>
   activeElements (snd (getActiveObject sample_particles)) = [31] \<and>
   releaseObject 5 sample_particles = sample_particles \<and>
   releaseObject 31 (releaseObject 31 (snd (getActiveObject sample_particles)))
     = releaseObject 31 (snd (getActiveObject sample_particles)) \<and>
   fst (getActiveObject (sample_particles\<lparr> inactiveElements := [] \<rparr>)) = None"
proof -
  have i: "inactiveElements sample_particles = [0..<32]"
    and a: "activeElements sample_particles = []"
    and f: "\<not> isActive (store sample_particles 5)"
    by (simp_all add: sample_particles_def construct_pool construct_flags del: upt_Suc)
  have ne: "inactiveElements sample_particles \<noteq> []" and l: "last (inactiveElements sample_particles) = 31"
    by (simp_all add: i)
  from acquire_and_release [of sample_particles 5] ne l a f
  have "fst (getActiveObject sample_particles) = Some 31"
    and "activeElements (snd (getActiveObject sample_particles)) = [31]"
    and "releaseObject 5 sample_particles = sample_particles"
    by simp_all
  moreover from acquire_and_release [of "snd (getActiveObject sample_particles)" 31]
  have "releaseObject 31 (releaseObject 31 (snd (getActiveObject sample_particles)))
     = releaseObject 31 (snd (getActiveObject sample_particles))" by blast
  moreover from acquire_and_release [of "sample_particles\<lparr> inactiveElements := [] \<rparr>" 5]
  have "fst (getActiveObject (sample_particles\<lparr> inactiveElements := [] \<rparr>)) = None" by simp
  ultimately show ?thesis by blast
qed

subsection \<open>The partition of the pool\<close>

text \<open>
  C10. After construction and after any sequence of calls (acquire, release,
  reconciliation, and the timers and frames as well), the sequence returns, and in the
  instance it leaves every pooled object is in exactly one of \<open>activeElements\<close> and
  \<open>inactiveElements\<close>, neither array holds an object twice, their lengths add up to
  the pool capacity, and the flag \<open>isActive\<close> of an object is on exactly when the object
  is in \<open>activeElements\<close>.
\<close>

theorem pool_partition:
  "\<exists>s. run acts (construct n f now pnow ir mr) = Some (Inr s) \<and>
       (\<forall>obj \<in> set (textElementPool s).
          (obj \<in> set (activeElements s)) \<noteq> (obj \<in> set (inactiveElements s))) \<and>
       distinct (activeElements s) \<and> distinct (inactiveElements s) \<and>
       set (activeElements s) \<union> set (inactiveElements s) = set (textElementPool s) \<and>
       length (activeElements s) + length (inactiveElements s) = poolSize s \<and>
       length (textElementPool s) = poolSize s \<and>
       (\<forall>obj. isActive (store s obj) = (obj \<in> set (activeElements s)))"
proof -
  from run_inv [OF sys_inv_construct, of acts n f now pnow ir mr]
  obtain s where r: "run acts (construct n f now pnow ir mr) = Some (Inr s)" and i: "sys_inv s"
    by blast
  from i have p: "pool_inv s" by (simp add: sys_inv_def)
  from p have d: "distinct (activeElements s @ inactiveElements s)"
    and u: "set (activeElements s) \<union> set (inactiveElements s) = set (textElementPool s)"
    and l: "length (textElementPool s) = poolSize s"
    and fl: "\<forall>obj. isActive (store s obj) = (obj \<in> set (activeElements s))"
    by (simp_all add: pool_inv_def)
  from d have dj: "set (activeElements s) \<inter> set (inactiveElements s) = {}" by simp
  have "\<forall>obj \<in> set (textElementPool s).
          (obj \<in> set (activeElements s)) \<noteq> (obj \<in> set (inactiveElements s))"
    using dj u by auto
  with r d u l fl pool_inv_lengths [OF p] show ?thesis by auto
qed

theorem pool_partition_witness:
  "(case run sample_calls sample_particles of
      Some (Inr s) \<Rightarrow>
        length (activeElements s) + length (inactiveElements s) = 32 \<and>
        distinct (activeElements s) \<and> distinct (inactiveElements s) \<and>
        isActive (store s 0) = (0 \<in> set (activeElements s))
    | _ \<Rightarrow> False)"
proof -
  from pool_partition [of sample_calls desktop plain_fmt 0 0 "\<lambda>i. sample_init" "\<lambda>i. sample_mesh"]
  obtain s where r: "run sample_calls sample_particles = Some (Inr s)"
    and a: "length (activeElements s) + length (inactiveElements s) = poolSize s"
      "distinct (activeElements s)" "distinct (inactiveElements s)"
      "\<forall>obj. isActive (store s obj) = (obj \<in> set (activeElements s))"
    unfolding sample_particles_def by blast
  from run_inv [OF sys_inv_construct, of sample_calls desktop plain_fmt 0 0 "\<lambda>i. sample_init" "\<lambda>i. sample_mesh"] r
  have "poolSize s = 32" by (auto simp: sample_particles_def sys_inv_def)
  with r a show ?thesis by simp
qed

subsection \<open>The count after reconciliation\<close>

text \<open>
  C4. \<open>updateDisplayMetrics\<close> returns, and afterwards the number of active objects is
  \<open>min textCount (number of metrics)\<close> and at most the pool capacity. This holds of every
  partitioned pool whose target is not negative, fits the pool, and either does not
  exceed the number of metrics or the active objects do not; and it holds of the
  instance after any sequence of calls since construction, where the capacity is \<open>32\<close>
  and the twelve vehicles yield \<open>49\<close> metrics.
\<close>

theorem reconciliation_count:
  "(pool_inv s \<and> 0 \<le> textCount s \<and>
    min (textCount s) (int (length (getDisplayMetrics f (vehicles s)))) \<le> int (poolSize s) \<and>
    (length (activeElements s) \<le> length (getDisplayMetrics f (vehicles s)) \<or>
     textCount s \<le> int (length (getDisplayMetrics f (vehicles s)))) \<longrightarrow>
    (\<exists>s'. updateDisplayMetrics f now s = Some (Inr s') \<and>
          int (length (activeElements s')) = min (textCount s') (int (length (currentMetrics s'))) \<and>
          length (activeElements s') \<le> poolSize s' \<and> pool_inv s')) \<and>
   (run acts (construct n f0 t0 p0 ir mr) = Some (Inr s) \<longrightarrow>
    (\<exists>s'. updateDisplayMetrics f now s = Some (Inr s') \<and>
          int (length (activeElements s')) = min (textCount s') (int (length (currentMetrics s'))) \<and>
          length (activeElements s') \<le> poolSize s' \<and>
          poolSize s' = 32 \<and> length (currentMetrics s') = 49 \<and>
          textCount s' = textCount s))"
proof (intro conjI impI)
  assume h: "pool_inv s \<and> 0 \<le> textCount s \<and>
    min (textCount s) (int (length (getDisplayMetrics f (vehicles s)))) \<le> int (poolSize s) \<and>
    (length (activeElements s) \<le> length (getDisplayMetrics f (vehicles s)) \<or>
     textCount s \<le> int (length (getDisplayMetrics f (vehicles s))))"
  then have p: "pool_inv s" and t0: "0 \<le> textCount s" by simp_all
  define m where "m = int (length (getDisplayMetrics f (vehicles s)))"
  define a where "a = int (length (activeElements s))"
  from updateDisplayMetrics_result [OF p t0, of f now]
  obtain s' where r: "updateDisplayMetrics f now s = Some (Inr s')" and i: "pool_inv s'"
    and e: "textCount s' = textCount s" "poolSize s' = poolSize s"
      "currentMetrics s' = getDisplayMetrics f (vehicles s)"
    and c: "int (length (activeElements s')) =
             (if min a (textCount s) < min (textCount s) m
              then min (min (textCount s) m) (int (poolSize s))
              else min a (textCount s))"
    unfolding m_def a_def by blast
  from h have h1: "min (textCount s) m \<le> int (poolSize s)" and h2: "a \<le> m \<or> textCount s \<le> m"
    unfolding m_def a_def by simp_all
  have "int (length (activeElements s')) = min (textCount s) m"
    using c h1 h2 by (simp add: min_def split: if_splits)
  then have c': "int (length (activeElements s')) = min (textCount s') (int (length (currentMetrics s')))"
    by (simp add: e m_def)
  have "length (activeElements s') \<le> poolSize s'" using pool_inv_lengths [OF i] by simp
  with r c' i show "\<exists>s'. updateDisplayMetrics f now s = Some (Inr s') \<and>
          int (length (activeElements s')) = min (textCount s') (int (length (currentMetrics s'))) \<and>
          length (activeElements s') \<le> poolSize s' \<and> pool_inv s'" by blast
next
  assume "run acts (construct n f0 t0 p0 ir mr) = Some (Inr s)"
  with run_inv [OF sys_inv_construct, of acts n f0 t0 p0 ir mr] have i: "sys_inv s" by simp
  from sys_inv_updateDisplayMetrics [OF i, of f now]
  obtain s' where r: "updateDisplayMetrics f now s = Some (Inr s')" and i': "sys_inv s'"
    and m: "currentMetrics s' = getDisplayMetrics f (vehicles s)"
    and t: "textCount s' = textCount s"
    and c: "int (length (activeElements s')) = textCount s" by blast
  from i have v: "length (vehicles s) = 12" by (simp add: sys_inv_def)
  have m49: "length (currentMetrics s') = 49" by (simp add: m length_getDisplayMetrics v)
  from i' have n: "poolSize s' = 32" and t24: "textCount s' \<le> 24"
    using getOptimalTextCount_range [of "nav s'"] by (simp_all add: sys_inv_def)
  have "int (length (activeElements s')) = min (textCount s') (int (length (currentMetrics s')))"
    using c t t24 m49 by simp
  moreover have "length (activeElements s') \<le> poolSize s'"
    using c t t24 n by simp
  ultimately show "\<exists>s'. updateDisplayMetrics f now s = Some (Inr s') \<and>
          int (length (activeElements s')) = min (textCount s') (int (length (currentMetrics s'))) \<and>
          length (activeElements s') \<le> poolSize s' \<and>
          poolSize s' = 32 \<and> length (currentMetrics s') = 49 \<and>
          textCount s' = textCount s"
    using r n m49 t by blast
qed

theorem reconciliation_count_witness:
  "(case updateDisplayMetrics plain_fmt 0 sample_particles of
      Some (Inr s') \<Rightarrow>
        length (activeElements s') = 24 \<and> length (currentMetrics s') = 49 \<and> poolSize s' = 32
    | _ \<Rightarrow> False)"
proof -
  have r: "run [] (construct desktop plain_fmt 0 0 (\<lambda>i. sample_init) (\<lambda>i. sample_mesh))
      = Some (Inr sample_particles)"
    by (simp add: sample_particles_def)
  have t: "textCount sample_particles = 24"
    by (simp add: sample_particles_def textCount_construct getOptimalTextCount_def desktop_def)
  from reconciliation_count [of sample_particles plain_fmt 0 "[]" desktop plain_fmt 0 0
      "\<lambda>i. sample_init" "\<lambda>i. sample_mesh"] r
  obtain s' where "updateDisplayMetrics plain_fmt 0 sample_particles = Some (Inr s')"
    and "int (length (activeElements s')) = min (textCount s') (int (length (currentMetrics s')))"
    and "poolSize s' = 32" "length (currentMetrics s') = 49" "textCount s' = textCount sample_particles"
    by blast
  with t show ?thesis by simp
qed

subsection \<open>The metric list\<close>

text \<open>
  C9. \<open>getDisplayMetrics\<close> is a function of the fleet (and of the number formatting of
  the runtime) alone. For each vehicle, in fleet order, it emits exactly four metrics in
  the order location, fuel, engine, driver, all carrying the vehicle's id; the fuel
  metric is \<open>critical\<close> below \<open>20%\<close> and \<open>warning\<close> below \<open>40%\<close>, the engine metric is
  \<open>warning\<close> above \<open>100\<close> degrees, the driver metric is \<open>warning\<close> below a score of \<open>70\<close>.
  After the vehicles comes exactly one fleet metric, \<open>warning\<close> when fewer than \<open>90%\<close> of
  the vehicles are connected.
\<close>

theorem display_metrics_layout:
  "length (getDisplayMetrics f vs) = 4 * length vs + 1 \<and>
   (\<forall>i<length vs.
      getDisplayMetrics f vs ! (4 * i) = locationMetric f (vs ! i) \<and>
      getDisplayMetrics f vs ! (4 * i + 1) = fuelMetric f (vs ! i) \<and>
      getDisplayMetrics f vs ! (4 * i + 2) = engineMetric f (vs ! i) \<and>
      getDisplayMetrics f vs ! (4 * i + 3) = driverMetric f (vs ! i)) \<and>
   getDisplayMetrics f vs ! (4 * length vs) = fleetMetric vs \<and>
   (m_type (locationMetric f v) = ''location'' \<and> m_vehicleId (locationMetric f v) = vid v) \<and>
   (m_type (fuelMetric f v) = ''fuel'' \<and> m_vehicleId (fuelMetric f v) = vid v \<and>
    m_status (fuelMetric f v) =
      (if level (vfuel v) / capacity (vfuel v) * 100 < 20 then ''critical''
       else if level (vfuel v) / capacity (vfuel v) * 100 < 40 then ''warning''
       else ''normal'')) \<and>
   (m_type (engineMetric f v) = ''engine'' \<and> m_vehicleId (engineMetric f v) = vid v \<and>
    m_status (engineMetric f v) = (if temperature (vengine v) > 100 then ''warning'' else ''normal'')) \<and>
   (m_type (driverMetric f v) = ''driver'' \<and> m_vehicleId (driverMetric f v) = vid v \<and>
    m_status (driverMetric f v) = (if score (vdriver v) < 70 then ''warning'' else ''normal'')) \<and>
   (m_type (fleetMetric vs) = ''fleet'' \<and> m_vehicleId (fleetMetric vs) = ''FLEET'' \<and>
    m_status (fleetMetric vs) =
      (if vs \<noteq> [] \<and>
          real (length (filter (\<lambda>v. connected (vstatus v)) vs)) / real (length vs) < 9 / 10
       then ''warning'' else ''normal''))"
proof -
  let ?q = "\<lambda>v. [locationMetric f v, fuelMetric f v, engineMetric f v, driverMetric f v]"
  have len: "length (concat (map ?q vs)) = 4 * length vs" by (rule length_concat_quads)
  have nth: "getDisplayMetrics f vs ! (4 * i + j) = ?q (vs ! i) ! j" if "i < length vs" "j < 4" for i j
  proof -
    from that have "4 * i + j < length (concat (map ?q vs))" unfolding len by simp
    then have "getDisplayMetrics f vs ! (4 * i + j) = concat (map ?q vs) ! (4 * i + j)"
      by (simp add: getDisplayMetrics_concat nth_append)
    also have "\<dots> = ?q (vs ! i) ! j" using that by (rule concat_quads_nth)
    finally show ?thesis .
  qed
  have a: "\<forall>i<length vs.
      getDisplayMetrics f vs ! (4 * i) = locationMetric f (vs ! i) \<and>
      getDisplayMetrics f vs ! (4 * i + 1) = fuelMetric f (vs ! i) \<and>
      getDisplayMetrics f vs ! (4 * i + 2) = engineMetric f (vs ! i) \<and>
      getDisplayMetrics f vs ! (4 * i + 3) = driverMetric f (vs ! i)"
  proof (intro allI impI)
    fix i assume i: "i < length vs"
    from nth [OF i, of 0] nth [OF i, of 1] nth [OF i, of 2] nth [OF i, of 3]
    show "getDisplayMetrics f vs ! (4 * i) = locationMetric f (vs ! i) \<and>
      getDisplayMetrics f vs ! (4 * i + 1) = fuelMetric f (vs ! i) \<and>
      getDisplayMetrics f vs ! (4 * i + 2) = engineMetric f (vs ! i) \<and>
      getDisplayMetrics f vs ! (4 * i + 3) = driverMetric f (vs ! i)"
      by simp
  qed
  have b: "getDisplayMetrics f vs ! (4 * length vs) = fleetMetric vs"
    using len by (simp add: getDisplayMetrics_concat nth_append)
  have c: "m_status (fleetMetric vs) =
      (if vs \<noteq> [] \<and>
          real (length (filter (\<lambda>v. connected (vstatus v)) vs)) / real (length vs) < 9 / 10
       then ''warning'' else ''normal'')"
  proof (cases "vs = []")
    case True
    then show ?thesis by (simp add: fleetMetric_def getFleetSummary_def Let_def)
  next
    case False
    then have "0 < real (length vs)" by simp
    then have "(real (length (filter (\<lambda>v. connected (vstatus v)) vs)) / real (length vs) < 9 / 10)
        = (real (length (filter (\<lambda>v. connected (vstatus v)) vs)) < real (length vs) * 0.9)"
      by (simp add: field_simps)
    with False show ?thesis by (simp add: fleetMetric_def getFleetSummary_def Let_def)
  qed
  show ?thesis
    using a b c
    by (simp add: length_getDisplayMetrics locationMetric_def fuelMetric_def engineMetric_def
        driverMetric_def fleetMetric_def Let_def)
qed

theorem display_metrics_layout_witness:
  "length (getDisplayMetrics plain_fmt (initializeFleet 0 (\<lambda>i. sample_init\<lparr> i_level := 0 \<rparr>))) = 49 \<and>
   m_type (getDisplayMetrics plain_fmt (initializeFleet 0 (\<lambda>i. sample_init\<lparr> i_level := 0 \<rparr>)) ! 0) = ''location'' \<and>
   m_type (getDisplayMetrics plain_fmt (initializeFleet 0 (\<lambda>i. sample_init\<lparr> i_level := 0 \<rparr>)) ! 1) = ''fuel'' \<and>
   m_status (getDisplayMetrics plain_fmt (initializeFleet 0 (\<lambda>i. sample_init\<lparr> i_level := 0 \<rparr>)) ! 1) = ''warning'' \<and>
   m_type (getDisplayMetrics plain_fmt (initializeFleet 0 (\<lambda>i. sample_init\<lparr> i_level := 0 \<rparr>)) ! 2) = ''engine'' \<and>
   m_type (getDisplayMetrics plain_fmt (initializeFleet 0 (\<lambda>i. sample_init\<lparr> i_level := 0 \<rparr>)) ! 3) = ''driver'' \<and>
   m_type (getDisplayMetrics plain_fmt (initializeFleet 0 (\<lambda>i. sample_init\<lparr> i_level := 0 \<rparr>)) ! 48) = ''fleet''"
proof -
  let ?vs = "initializeFleet 0 (\<lambda>i. sample_init\<lparr> i_level := 0 \<rparr>)"
  let ?v = "newVehicle 0 (sample_init\<lparr> i_level := 0 \<rparr>) 0"
  have l: "length ?vs = 12" by simp
  have v0: "?vs ! 0 = ?v" by (simp add: initializeFleet_nth)
  have pct: "level (vfuel ?v) / capacity (vfuel ?v) * 100 = 30"
    by (simp add: newVehicle_def sample_init_def vehicleTypes_def)
  from display_metrics_layout [of plain_fmt ?vs ?v]
  have len: "length (getDisplayMetrics plain_fmt ?vs) = 4 * length ?vs + 1"
    and q: "\<forall>i<length ?vs.
      getDisplayMetrics plain_fmt ?vs ! (4 * i) = locationMetric plain_fmt (?vs ! i) \<and>
      getDisplayMetrics plain_fmt ?vs ! (4 * i + 1) = fuelMetric plain_fmt (?vs ! i) \<and>
      getDisplayMetrics plain_fmt ?vs ! (4 * i + 2) = engineMetric plain_fmt (?vs ! i) \<and>
      getDisplayMetrics plain_fmt ?vs ! (4 * i + 3) = driverMetric plain_fmt (?vs ! i)"
    and fl: "getDisplayMetrics plain_fmt ?vs ! (4 * length ?vs) = fleetMetric ?vs"
    and ty: "m_type (locationMetric plain_fmt ?v) = ''location''"
      "m_type (fuelMetric plain_fmt ?v) = ''fuel''"
      "m_type (engineMetric plain_fmt ?v) = ''engine''"
      "m_type (driverMetric plain_fmt ?v) = ''driver''"
      "m_type (fleetMetric ?vs) = ''fleet''"
    and st: "m_status (fuelMetric plain_fmt ?v) =
      (if level (vfuel ?v) / capacity (vfuel ?v) * 100 < 20 then ''critical''
       else if level (vfuel ?v) / capacity (vfuel ?v) * 100 < 40 then ''warning''
       else ''normal'')"
    by blast+
  from q l have "getDisplayMetrics plain_fmt ?vs ! (4 * 0) = locationMetric plain_fmt (?vs ! 0) \<and>
      getDisplayMetrics plain_fmt ?vs ! (4 * 0 + 1) = fuelMetric plain_fmt (?vs ! 0) \<and>
      getDisplayMetrics plain_fmt ?vs ! (4 * 0 + 2) = engineMetric plain_fmt (?vs ! 0) \<and>
      getDisplayMetrics plain_fmt ?vs ! (4 * 0 + 3) = driverMetric plain_fmt (?vs ! 0)"
    by (metis zero_less_numeral)
  then have q0: "getDisplayMetrics plain_fmt ?vs ! 0 = locationMetric plain_fmt ?v"
      "getDisplayMetrics plain_fmt ?vs ! 1 = fuelMetric plain_fmt ?v"
      "getDisplayMetrics plain_fmt ?vs ! 2 = engineMetric plain_fmt ?v"
      "getDisplayMetrics plain_fmt ?vs ! 3 = driverMetric plain_fmt ?v"
    unfolding v0 by (simp_all add: numeral_2_eq_2)
  from fl l have f48: "getDisplayMetrics plain_fmt ?vs ! 48 = fleetMetric ?vs" by simp
  from st have st': "m_status (fuelMetric plain_fmt ?v) = ''warning''"
    unfolding pct by simp
  show ?thesis
    unfolding q0 f48 using len l ty st' by simp
qed

subsection \<open>The governor\<close>

lemma checkPerformance_nav [simp]: "nav (checkPerformance now s) = nav s"
  by (subst checkPerformance_shape) simp

lemma checkPerformance_lastFPSCheck [simp]: "lastFPSCheck (checkPerformance now s) = now"
  by (subst checkPerformance_shape) simp

lemma checkPerformance_bounds:
  assumes "8 \<le> textCount s" and "textCount s \<le> getOptimalTextCount (nav s)"
  shows "8 \<le> textCount (checkPerformance now s) \<and>
         textCount (checkPerformance now s) \<le> getOptimalTextCount (nav s)"
  using assms by (simp add: checkPerformance_textCount Let_def)

lemma updateNonCritical_keeps:
  "frameCount (updateNonCritical t) = frameCount t"
  "activeElements (updateNonCritical t) = activeElements t"
  "textCount (updateNonCritical t) = textCount t"
  "lastFPSCheck (updateNonCritical t) = lastFPSCheck t"
  "nav (updateNonCritical t) = nav t"
  unfolding updateNonCritical_def by (subst updateNonCriticalFrom_shape, simp)+

lemma updateCritical_keeps:
  "frameCount (updateCritical fr cam t) = frameCount t"
  "activeElements (updateCritical fr cam t) = activeElements t"
  "textCount (updateCritical fr cam t) = textCount t"
  "lastFPSCheck (updateCritical fr cam t) = lastFPSCheck t"
  "nav (updateCritical fr cam t) = nav t"
  unfolding updateCritical_def by (subst updateCriticalFrom_shape, simp)+

lemma update_frameCount:
  "frameCount (update fr s) = frameCount s + (if activeElements s = [] then 0 else 1)"
  by (simp add: update_def Let_def updateNonCritical_keeps updateCritical_keeps
           split: option.splits)

lemma update_keeps:
  "activeElements (update fr s) = activeElements s"
  "textCount (update fr s) = textCount s"
  "lastFPSCheck (update fr s) = lastFPSCheck s"
  "nav (update fr s) = nav s"
  by (simp_all add: update_def Let_def updateNonCritical_keeps updateCritical_keeps
           split: option.splits)

lemma updateTextContent_keeps:
  "frameCount (updateTextContent f now s) = frameCount s"
  "textCount (updateTextContent f now s) = textCount s"
  "lastFPSCheck (updateTextContent f now s) = lastFPSCheck s"
  "nav (updateTextContent f now s) = nav s"
  unfolding updateTextContent_def Let_def by (subst updateContentFrom_shape, simp)+

lemma getActiveObject_keeps:
  "frameCount (snd (getActiveObject s)) = frameCount s"
  "textCount (snd (getActiveObject s)) = textCount s"
  "lastFPSCheck (snd (getActiveObject s)) = lastFPSCheck s"
  "nav (snd (getActiveObject s)) = nav s"
  by (subst getActiveObject_shape, simp)+

lemma releaseObject_keeps:
  "frameCount (releaseObject obj s) = frameCount s"
  "textCount (releaseObject obj s) = textCount s"
  "lastFPSCheck (releaseObject obj s) = lastFPSCheck s"
  "nav (releaseObject obj s) = nav s"
  by (subst releaseObject_shape, simp)+

lemma updateDisplayMetrics_keeps:
  assumes "pool_inv s" and "0 \<le> textCount s"
    and u: "updateDisplayMetrics f now s = Some (Inr s')"
  shows "frameCount s' = frameCount s \<and> textCount s' = textCount s \<and>
         lastFPSCheck s' = lastFPSCheck s \<and> nav s' = nav s"
proof -
  let ?s1 = "s\<lparr> currentMetrics := getDisplayMetrics f (vehicles s) \<rparr>"
  have inv1: "pool_inv ?s1" using assms(1) by (simp add: pool_inv_def)
  have tc1: "0 \<le> textCount ?s1" using assms(2) by simp
  from releaseExcess_returns [OF inv1 tc1]
  obtain s2 where r: "releaseExcess ?s1 = Some (Inr s2)" and inv2: "pool_inv s2"
    and e2: "s2 = ?s1\<lparr> store := store s2, activeElements := activeElements s2,
                    inactiveElements := inactiveElements s2 \<rparr>"
    by blast
  have f2: "frameCount s2 = frameCount s" "textCount s2 = textCount s"
    "lastFPSCheck s2 = lastFPSCheck s" "nav s2 = nav s"
    by (subst e2, simp)+
  let ?s3 = "activateNeeded s2"
  from activateNeeded_result [OF inv2]
  have e3: "?s3 = s2\<lparr> store := store ?s3, activeElements := activeElements ?s3,
                    inactiveElements := inactiveElements ?s3 \<rparr>"
    by blast
  have f3: "frameCount ?s3 = frameCount s" "textCount ?s3 = textCount s"
    "lastFPSCheck ?s3 = lastFPSCheck s" "nav ?s3 = nav s"
    by (subst e3, simp add: f2)+
  let ?s4 = "updateContentFrom now 0 (activeElements ?s3) ?s3"
  have e4: "?s4 = ?s3\<lparr> store := store ?s4 \<rparr>" by (rule updateContentFrom_shape)
  have f4: "frameCount ?s4 = frameCount s" "textCount ?s4 = textCount s"
    "lastFPSCheck ?s4 = lastFPSCheck s" "nav ?s4 = nav s"
    by (subst e4, simp add: f3)+
  have "updateDisplayMetrics f now s = Some (Inr ?s4)"
    by (simp add: updateDisplayMetrics_def Let_def r)
  with u have "s' = ?s4" by simp
  then show ?thesis using f4 by simp
qed

lemma perform_governor:
  assumes "sys_inv s" and "\<not> isCheckPerformance a" and p: "perform a s = Some (Inr s1)"
  shows "frameCount s1 = frameCount s + counted a s \<and> textCount s1 = textCount s \<and>
         lastFPSCheck s1 = lastFPSCheck s \<and> nav s1 = nav s"
proof (cases a)
  case (Tick r)
  with p show ?thesis by (auto simp: counted_def)
next
  case (UpdateTextContent f now)
  with p show ?thesis by (auto simp: counted_def updateTextContent_keeps)
next
  case (CheckPerformance now)
  with assms(2) show ?thesis by simp
next
  case (Update fr)
  with p show ?thesis by (auto simp: counted_def update_keeps update_frameCount)
next
  case UpdateNonCritical
  with p show ?thesis by (auto simp: counted_def updateNonCritical_keeps)
next
  case GetActiveObject
  with p show ?thesis by (auto simp: counted_def getActiveObject_keeps)
next
  case (ReleaseObject obj)
  with p show ?thesis by (auto simp: counted_def releaseObject_keeps)
next
  case (UpdateDisplayMetrics f now)
  from assms(1) have "pool_inv s" "0 \<le> textCount s" by (simp_all add: sys_inv_def)
  from updateDisplayMetrics_keeps [OF this, of f now s1] p UpdateDisplayMetrics
  show ?thesis by (simp add: counted_def)
qed

lemma run_governor:
  assumes "sys_inv s" and "\<forall>a \<in> set w. \<not> isCheckPerformance a"
  shows "\<exists>s1. run w s = Some (Inr s1) \<and> sys_inv s1 \<and>
           frameCount s1 = frameCount s + countedFrames w s \<and> textCount s1 = textCount s \<and>
           lastFPSCheck s1 = lastFPSCheck s \<and> nav s1 = nav s"
  using assms
proof (induction w arbitrary: s)
  case Nil
  then show ?case by simp
next
  case (Cons a w)
  from perform_inv [OF Cons.prems(1), of a] obtain s1 where
    p: "perform a s = Some (Inr s1)" and i: "sys_inv s1" by blast
  from Cons.prems(2) have na: "\<not> isCheckPerformance a"
    and nw: "\<forall>a \<in> set w. \<not> isCheckPerformance a" by simp_all
  from perform_governor [OF Cons.prems(1) na p]
  have g: "frameCount s1 = frameCount s + counted a s" "textCount s1 = textCount s"
    "lastFPSCheck s1 = lastFPSCheck s" "nav s1 = nav s" by simp_all
  from Cons.IH [OF i nw] obtain s2 where
    r: "run w s1 = Some (Inr s2)" and i2: "sys_inv s2"
    and g2: "frameCount s2 = frameCount s1 + countedFrames w s1" "textCount s2 = textCount s1"
    "lastFPSCheck s2 = lastFPSCheck s1" "nav s2 = nav s1" by blast
  show ?case using p r i2 g g2 by simp
qed

lemma checkPerformance_frameCount [simp]: "frameCount (checkPerformance now s) = 0"
  by (subst checkPerformance_shape) simp

lemma checkPerformance_activeElements [simp]:
  "activeElements (checkPerformance now s) = activeElements s"
  by (subst checkPerformance_shape) simp

lemma checkPerformance_step:
  assumes "8 \<le> textCount s" and "textCount s \<le> getOptimalTextCount (nav s)"
    and nz: "now - lastFPSCheck s \<noteq> 0"
  shows "textCount (checkPerformance now s) =
           spec_targetActive (getOptimalTextCount (nav s))
             (of_int (js_round (spec_measuredFPS (frameCount s) (now - lastFPSCheck s))))
             (textCount s)"
proof -
  define k where "k = js_round (spec_measuredFPS (frameCount s) (now - lastFPSCheck s))"
  have m: "measureFPS (frameCount s) (now - lastFPSCheck s) = Num k"
    using nz by (simp add: measureFPS_def k_def spec_measuredFPS_def mult.commute)
  have lt: "(real_of_int k < 30) = (k < 30)" and gt: "(real_of_int k > 50) = (k > 50)"
    by linarith+
  show ?thesis
    unfolding k_def [symmetric] checkPerformance_textCount m Let_def spec_targetActive_def lt gt
    using assms(1,2) by auto
qed

lemma monitor_governor:
  assumes "sys_inv s" and "frameCount s = 0"
    and "\<forall>w \<in> set ws. \<forall>a \<in> set w. \<not> isCheckPerformance a"
  shows "\<exists>s'. monitor ws s = Some (Inr s') \<and> sys_inv s' \<and> nav s' = nav s \<and>
           textCount s' =
             spec_governor (getOptimalTextCount (nav s)) (textCount s) (windowFrames ws s) \<and>
           lastFPSCheck s' = lastFPSCheck s + monitorPeriod * real (length ws) \<and>
           frameCount s' = 0"
  using assms
proof (induction ws arbitrary: s)
  case Nil
  then show ?case by simp
next
  case (Cons w ws)
  from Cons.prems(3) have nw: "\<forall>a \<in> set w. \<not> isCheckPerformance a"
    and nws: "\<forall>w \<in> set ws. \<forall>a \<in> set w. \<not> isCheckPerformance a" by simp_all
  from run_governor [OF Cons.prems(1) nw] obtain s1 where
    r: "run w s = Some (Inr s1)" and i1: "sys_inv s1"
    and f1: "frameCount s1 = frameCount s + countedFrames w s"
    and t1: "textCount s1 = textCount s" and l1: "lastFPSCheck s1 = lastFPSCheck s"
    and n1: "nav s1 = nav s" by blast
  let ?s2 = "checkPerformance (lastFPSCheck s + monitorPeriod) s1"
  have i2: "sys_inv ?s2" using i1 by (rule sys_inv_checkPerformance)
  have b1: "8 \<le> textCount s1" "textCount s1 \<le> getOptimalTextCount (nav s1)"
    using i1 by (simp_all add: sys_inv_def)
  have nz: "lastFPSCheck s + monitorPeriod - lastFPSCheck s1 \<noteq> 0"
    by (simp add: l1 monitorPeriod_def)
  have t2: "textCount ?s2 =
      spec_targetActive (getOptimalTextCount (nav s))
        (of_int (js_round (spec_measuredFPS (countedFrames w s) monitorPeriod))) (textCount s)"
    using checkPerformance_step [OF b1 nz] by (simp add: l1 f1 t1 n1 Cons.prems(2))
  have n2: "nav ?s2 = nav s" by (simp add: n1)
  have l2: "lastFPSCheck ?s2 = lastFPSCheck s + monitorPeriod" by simp
  have f2: "frameCount ?s2 = 0" by simp
  from Cons.IH [OF i2 f2 nws] obtain s' where
    m: "monitor ws ?s2 = Some (Inr s')" and i': "sys_inv s'" and n': "nav s' = nav ?s2"
    and t': "textCount s' =
             spec_governor (getOptimalTextCount (nav ?s2)) (textCount ?s2) (windowFrames ws ?s2)"
    and l': "lastFPSCheck s' = lastFPSCheck ?s2 + monitorPeriod * real (length ws)"
    and f': "frameCount s' = 0" by blast
  have "monitor (w # ws) s = Some (Inr s')" using r m by simp
  moreover have "textCount s' =
      spec_governor (getOptimalTextCount (nav s)) (textCount s) (windowFrames (w # ws) s)"
    using t' by (simp add: r t2 n1)
  moreover have "lastFPSCheck s' = lastFPSCheck s + monitorPeriod * real (length (w # ws))"
    using l' by (simp add: algebra_simps)
  ultimately show ?case using i' f' n' n2 by simp
qed

text \<open>
  C3, as the code has it. \<open>checkPerformance\<close> compares the measured frame rate
  \<^emph>\<open>rounded to the nearest integer\<close>, \<open>round (frames * 1000 / windowMs)\<close>, where \<open>frames\<close>
  is the frame counter and \<open>windowMs\<close> the time since the previous evaluation: the target
  drops by \<open>2\<close> (not below \<open>8\<close>) when the rounded rate is below \<open>30\<close>, rises by \<open>1\<close> (not
  above the baseline of the device) when it is above \<open>50\<close>, and stays otherwise. Every
  evaluation resets the frame counter and takes the clock as the start of the next window.
  The baseline is at most \<open>24\<close>. Run by its timer once per window of \<open>5000\<close> ms over any
  sequence of windows of calls, from an instance whose counter is \<open>0\<close>, the governor ends
  with the target the rule gives on the frames counted in each window, a target between
  \<open>8\<close> and the baseline, the counter at \<open>0\<close> and the clock of the last evaluation.
\<close>

theorem governor_step:
  assumes "8 \<le> textCount s" and "textCount s \<le> getOptimalTextCount (nav s)"
  shows "(now - lastFPSCheck s \<noteq> 0 \<longrightarrow>
            textCount (checkPerformance now s) =
              spec_targetActive (getOptimalTextCount (nav s))
                (of_int (js_round (spec_measuredFPS (frameCount s) (now - lastFPSCheck s))))
                (textCount s)) \<and>
         frameCount (checkPerformance now s) = 0 \<and>
         lastFPSCheck (checkPerformance now s) = now \<and>
         8 \<le> textCount (checkPerformance now s) \<and>
         textCount (checkPerformance now s) \<le> getOptimalTextCount (nav s) \<and>
         getOptimalTextCount (nav s) \<le> 24 \<and>
         (sys_inv s \<and> frameCount s = 0 \<and>
          (\<forall>w \<in> set ws. \<forall>a \<in> set w. \<not> isCheckPerformance a) \<longrightarrow>
            (\<exists>s'. monitor ws s = Some (Inr s') \<and>
               textCount s' =
                 spec_governor (getOptimalTextCount (nav s)) (textCount s) (windowFrames ws s) \<and>
               lastFPSCheck s' = lastFPSCheck s + monitorPeriod * real (length ws) \<and>
               frameCount s' = 0 \<and>
               8 \<le> textCount s' \<and> textCount s' \<le> getOptimalTextCount (nav s)))"
proof -
  have step: "now - lastFPSCheck s \<noteq> 0 \<longrightarrow>
            textCount (checkPerformance now s) =
              spec_targetActive (getOptimalTextCount (nav s))
                (of_int (js_round (spec_measuredFPS (frameCount s) (now - lastFPSCheck s))))
                (textCount s)"
    using checkPerformance_step [OF assms] by blast
  have mon: "sys_inv s \<and> frameCount s = 0 \<and>
          (\<forall>w \<in> set ws. \<forall>a \<in> set w. \<not> isCheckPerformance a) \<longrightarrow>
            (\<exists>s'. monitor ws s = Some (Inr s') \<and>
               textCount s' =
                 spec_governor (getOptimalTextCount (nav s)) (textCount s) (windowFrames ws s) \<and>
               lastFPSCheck s' = lastFPSCheck s + monitorPeriod * real (length ws) \<and>
               frameCount s' = 0 \<and>
               8 \<le> textCount s' \<and> textCount s' \<le> getOptimalTextCount (nav s))"
  proof
    assume h: "sys_inv s \<and> frameCount s = 0 \<and>
          (\<forall>w \<in> set ws. \<forall>a \<in> set w. \<not> isCheckPerformance a)"
    then have a: "sys_inv s" and b: "frameCount s = 0"
      and c: "\<forall>w \<in> set ws. \<forall>a \<in> set w. \<not> isCheckPerformance a" by blast+
    from monitor_governor [OF a b c] obtain s' where
      m: "monitor ws s = Some (Inr s')" and i: "sys_inv s'" and n: "nav s' = nav s"
      and t: "textCount s' =
             spec_governor (getOptimalTextCount (nav s)) (textCount s) (windowFrames ws s)"
      and l: "lastFPSCheck s' = lastFPSCheck s + monitorPeriod * real (length ws)"
      and f: "frameCount s' = 0" by blast
    from i n have "8 \<le> textCount s'" "textCount s' \<le> getOptimalTextCount (nav s)"
      by (simp_all add: sys_inv_def)
    with m t l f show "\<exists>s'. monitor ws s = Some (Inr s') \<and>
               textCount s' =
                 spec_governor (getOptimalTextCount (nav s)) (textCount s) (windowFrames ws s) \<and>
               lastFPSCheck s' = lastFPSCheck s + monitorPeriod * real (length ws) \<and>
               frameCount s' = 0 \<and>
               8 \<le> textCount s' \<and> textCount s' \<le> getOptimalTextCount (nav s)" by blast
  qed
  have rest: "frameCount (checkPerformance now s) = 0"
    "lastFPSCheck (checkPerformance now s) = now" by simp_all
  show ?thesis
    using step mon rest checkPerformance_bounds [OF assms] getOptimalTextCount_range [of "nav s"]
    by blast
qed

lemma construct_governor:
  "textCount (construct n f now pnow ir mr) = getOptimalTextCount n"
  "nav (construct n f now pnow ir mr) = n"
  "lastFPSCheck (construct n f now pnow ir mr) = pnow"
proof -
  show "textCount (construct n f now pnow ir mr) = getOptimalTextCount n" by (rule textCount_construct)
  have a: "nav (updateTextContent f now s) = nav s"
    "lastFPSCheck (updateTextContent f now s) = lastFPSCheck s" for s
    unfolding updateTextContent_def Let_def by (subst updateContentFrom_shape, simp)+
  have b: "nav (createObjectPool mr s) = nav s"
    "lastFPSCheck (createObjectPool mr s) = lastFPSCheck s" for s
    unfolding createObjectPool_def by (subst createObjectPoolFrom_shape, simp)+
  show "nav (construct n f now pnow ir mr) = n" "lastFPSCheck (construct n f now pnow ir mr) = pnow"
    by (simp_all add: construct_def Let_def a b)
qed

lemma sample_particles_governor:
  "textCount sample_particles = 24" "nav sample_particles = desktop"
  "lastFPSCheck sample_particles = 0" "getOptimalTextCount desktop = 24"
  by (simp_all add: sample_particles_def construct_governor getOptimalTextCount_def desktop_def)

lemma js_round_25: "js_round (spec_measuredFPS 125 5000) = 25"
proof -
  have "spec_measuredFPS 125 5000 + 1 / 2 = 51 / 2" by (simp add: spec_measuredFPS_def)
  then show ?thesis unfolding js_round_def by simp
qed

lemma run_busy:
  "\<exists>s1. run (replicate n (Update fr)) s = Some (Inr s1) \<and> activeElements s1 = activeElements s"
proof (induction n arbitrary: s)
  case 0
  show ?case by simp
next
  case (Suc n)
  from Suc.IH [of "update fr s"] show ?case by (simp add: update_keeps)
qed

lemma countedFrames_busy:
  "activeElements s \<noteq> [] \<Longrightarrow> countedFrames (replicate n (Update fr)) s = n"
  by (induction n arbitrary: s) (simp_all add: update_keeps counted_def)

lemma windowFrames_busy:
  "activeElements s \<noteq> [] \<Longrightarrow> windowFrames (replicate k (replicate n (Update fr))) s = replicate k n"
proof (induction k arbitrary: s)
  case 0
  show ?case by simp
next
  case (Suc k)
  from run_busy [of n fr s] obtain s1 where
    r: "run (replicate n (Update fr)) s = Some (Inr s1)" and a: "activeElements s1 = activeElements s"
    by blast
  have "activeElements (checkPerformance (lastFPSCheck s + monitorPeriod) s1) \<noteq> []"
    using Suc.prems a by simp
  from Suc.IH [OF this] show ?case
    by (simp add: r countedFrames_busy [OF Suc.prems])
qed

lemma construct_frameCount: "frameCount (construct n f now pnow ir mr) = 0"
proof -
  have b: "frameCount (createObjectPool mr s) = frameCount s" for s
    unfolding createObjectPool_def by (subst createObjectPoolFrom_shape, simp)
  show ?thesis by (simp add: construct_def Let_def updateTextContent_keeps b)
qed

lemma sample_acquired: "activeElements (snd (getActiveObject sample_particles)) \<noteq> []"
proof -
  have "inactiveElements sample_particles = [0..<32]"
    by (simp add: sample_particles_def construct_pool del: upt_Suc)
  then have "inactiveElements sample_particles \<noteq> []" by simp
  from getActiveObject_nonempty [OF this] show ?thesis by simp
qed

lemma sample_windows:
  "windowFrames ((GetActiveObject # busy_window) # replicate k busy_window) sample_particles
     = replicate (Suc k) 125"
proof -
  let ?s0 = "snd (getActiveObject sample_particles)"
  from run_busy [of 125 sample_frame ?s0] obtain s1 where
    r: "run busy_window ?s0 = Some (Inr s1)" and a: "activeElements s1 = activeElements ?s0"
    unfolding busy_window_def by blast
  have c: "countedFrames busy_window ?s0 = 125"
    unfolding busy_window_def by (rule countedFrames_busy [OF sample_acquired])
  have "activeElements (checkPerformance (lastFPSCheck sample_particles + monitorPeriod) s1) \<noteq> []"
    using a sample_acquired by simp
  from windowFrames_busy [OF this, of k 125 sample_frame] show ?thesis
    by (simp add: r c counted_def busy_window_def [symmetric])
qed

lemma sample_windows_timer_free:
  "\<forall>w \<in> set ((GetActiveObject # busy_window) # replicate k busy_window).
      \<forall>a \<in> set w. \<not> isCheckPerformance a"
  by (auto simp: busy_window_def)

theorem governor_step_witness:
  "textCount sample_particles = 24 \<and>
   frameCount sample_particles = 0 \<and>
   lastFPSCheck sample_particles = 0 \<and>
   textCount (checkPerformance 5000 sample_particles) = 22 \<and>
   windowFrames [GetActiveObject # busy_window, busy_window, busy_window] sample_particles
     = [125, 125, 125] \<and>
   (case monitor [GetActiveObject # busy_window] sample_particles of
      Some (Inr s') \<Rightarrow> textCount s' = 22 \<and> lastFPSCheck s' = 5000 \<and> frameCount s' = 0
    | _ \<Rightarrow> False) \<and>
   (case monitor [GetActiveObject # busy_window, busy_window] sample_particles of
      Some (Inr s') \<Rightarrow> textCount s' = 20 \<and> lastFPSCheck s' = 10000 \<and> frameCount s' = 0
    | _ \<Rightarrow> False) \<and>
   (case monitor [GetActiveObject # busy_window, busy_window, busy_window] sample_particles of
      Some (Inr s') \<Rightarrow> textCount s' = 18 \<and> lastFPSCheck s' = 15000 \<and> frameCount s' = 0
    | _ \<Rightarrow> False)"
proof -
  have i: "sys_inv sample_particles" unfolding sample_particles_def by (rule sys_inv_construct)
  have f: "frameCount sample_particles = 0"
    unfolding sample_particles_def by (rule construct_frameCount)
  have b: "8 \<le> textCount sample_particles"
    "textCount sample_particles \<le> getOptimalTextCount (nav sample_particles)"
    by (simp_all add: sample_particles_governor)
  have g: "spec_targetActive 24 (real_of_int (js_round (spec_measuredFPS 125 5000))) t
      = max 8 (t - 2)" for t
    by (simp add: js_round_25 spec_targetActive_def)
  have step: "\<exists>s'. monitor ((GetActiveObject # busy_window) # replicate k busy_window)
                 sample_particles = Some (Inr s') \<and>
          textCount s' = spec_governor 24 24 (replicate (Suc k) 125) \<and>
          lastFPSCheck s' = monitorPeriod * real (Suc k) \<and> frameCount s' = 0" for k
    using governor_step [OF b, of 5000 "(GetActiveObject # busy_window) # replicate k busy_window",
        unfolded sample_windows] i f sample_windows_timer_free [of k]
    by (simp add: sample_particles_governor) blast
  have z: "js_round (spec_measuredFPS 0 5000) = 0"
    by (simp add: spec_measuredFPS_def js_round_def)
  have m0: "textCount (checkPerformance 5000 sample_particles) = 22"
    using governor_step [OF b, of 5000 "[]"]
    by (simp add: sample_particles_governor f z spec_targetActive_def)
  have m1: "case monitor [GetActiveObject # busy_window] sample_particles of
      Some (Inr s') \<Rightarrow> textCount s' = 22 \<and> lastFPSCheck s' = 5000 \<and> frameCount s' = 0
    | _ \<Rightarrow> False"
    using step [of 0] by (auto simp: g monitorPeriod_def)
  have m2: "case monitor [GetActiveObject # busy_window, busy_window] sample_particles of
      Some (Inr s') \<Rightarrow> textCount s' = 20 \<and> lastFPSCheck s' = 10000 \<and> frameCount s' = 0
    | _ \<Rightarrow> False"
    using step [of 1] by (auto simp: g monitorPeriod_def)
  have m3: "case monitor [GetActiveObject # busy_window, busy_window, busy_window] sample_particles of
      Some (Inr s') \<Rightarrow> textCount s' = 18 \<and> lastFPSCheck s' = 15000 \<and> frameCount s' = 0
    | _ \<Rightarrow> False"
    using step [of 2] by (auto simp: g monitorPeriod_def numeral_2_eq_2)
  have wf: "windowFrames [GetActiveObject # busy_window, busy_window, busy_window] sample_particles
      = [125, 125, 125]"
    using sample_windows [of 2] by (simp add: numeral_2_eq_2)
  show ?thesis using m0 m1 m2 m3 wf by (simp add: sample_particles_governor f)
qed

text \<open>
  \<open>148\<close> frames in \<open>5000\<close> ms are \<open>29.6\<close> frames per second, below \<open>30\<close>; the code rounds
  to \<open>30\<close> and leaves the target at \<open>24\<close>.
\<close>

theorem governor_rounds_fps:
  "textCount (sample_particles\<lparr> frameCount := 148 \<rparr>) = 24 \<and>
   lastFPSCheck (sample_particles\<lparr> frameCount := 148 \<rparr>) = 0 \<and>
   getOptimalTextCount (nav (sample_particles\<lparr> frameCount := 148 \<rparr>)) = 24 \<and>
   spec_measuredFPS 148 5000 = 148 / 5 \<and>
   spec_measuredFPS 148 5000 < 30 \<and>
   spec_targetActive 24 (spec_measuredFPS 148 5000) 24 = 22 \<and>
   currentFPS (checkPerformance 5000 (sample_particles\<lparr> frameCount := 148 \<rparr>)) = Num 30 \<and>
   textCount (checkPerformance 5000 (sample_particles\<lparr> frameCount := 148 \<rparr>)) = 24"
proof -
  have f: "spec_measuredFPS 148 5000 = 148 / 5" by (simp add: spec_measuredFPS_def)
  have "(1000 * real 148 / 5000 + 1 / 2 :: real) = 301 / 10" by simp
  then have r: "js_round (1000 * real 148 / 5000) = 30" unfolding js_round_def by simp
  have m: "measureFPS 148 5000 = Num 30" using r by (simp add: measureFPS_def)
  have c: "currentFPS (checkPerformance 5000 (sample_particles\<lparr> frameCount := 148 \<rparr>)) = Num 30"
    by (subst checkPerformance_shape) (simp add: sample_particles_governor m)
  show ?thesis
    using c by (simp add: f spec_targetActive_def checkPerformance_textCount Let_def
        sample_particles_governor m)
qed

subsection \<open>Visibility in the critical update\<close>

lemma criticalStep_keeps:
  "isActive (criticalStep c fr cam k x) = isActive x"
  "el_innerHTML (criticalStep c fr cam k x) = el_innerHTML x"
  "ud_life (criticalStep c fr cam k x) = ud_life x"
  "ud_originalPosition (criticalStep c fr cam k x) = ud_originalPosition x"
  by (simp_all add: criticalStep_def Let_def split: prod.splits)

lemma criticalStep_culled:
  assumes "cam (mesh_position (criticalStep True fr cam k x)) = (wx, wy, wz)"
    and "wz > 1 \<or> wz < - 1"
  shows "\<not> ud_isVisible (criticalStep True fr cam k x)"
    and "el_display (criticalStep True fr cam k x) = (if ud_isVisible x then ''none'' else el_display x)"
    and "el_opacity (criticalStep True fr cam k x) = el_opacity x"
  using assms by (auto simp: criticalStep_def Let_def split: prod.splits if_splits)

lemma criticalStep_shown:
  assumes "cam (mesh_position (criticalStep True fr cam k x)) = (wx, wy, wz)"
    and "- 1 \<le> wz" and "wz \<le> 1"
  shows "ud_isVisible (criticalStep True fr cam k x) = (finalAlpha (ud_life x) wz > 0.1)"
    and "finalAlpha (ud_life x) wz > 0.1 \<Longrightarrow>
           el_opacity (criticalStep True fr cam k x) = finalAlpha (ud_life x) wz"
    and "finalAlpha (ud_life x) wz > 0.1 \<Longrightarrow>
           el_display (criticalStep True fr cam k x) = (if ud_isVisible x then el_display x else ''block'')"
    and "finalAlpha (ud_life x) wz \<le> 0.1 \<Longrightarrow>
           el_display (criticalStep True fr cam k x) = (if ud_isVisible x then ''none'' else el_display x)"
    and "finalAlpha (ud_life x) wz \<le> 0.1 \<Longrightarrow>
           el_opacity (criticalStep True fr cam k x) = el_opacity x"
  using assms by (auto simp: criticalStep_def Let_def split: prod.splits if_splits)

lemma updateCriticalFrom_culling [simp]:
  "cullingEnabled (updateCriticalFrom fr cam k objs s) = cullingEnabled s"
  by (subst updateCriticalFrom_shape) simp

lemma updateCriticalFrom_other:
  "r \<notin> set objs \<Longrightarrow> store (updateCriticalFrom fr cam k objs s) r = store s r"
  by (induction objs arbitrary: k s) simp_all

lemma updateCriticalFrom_nth:
  assumes "distinct objs" and "i < length objs"
  shows "store (updateCriticalFrom fr cam k objs s) (objs ! i)
           = criticalStep (cullingEnabled s) fr cam (k + i) (store s (objs ! i))"
  using assms
proof (induction objs arbitrary: k s i)
  case Nil
  then show ?case by simp
next
  case (Cons obj objs)
  let ?s1 = "s\<lparr> store := (store s)(obj := criticalStep (cullingEnabled s) fr cam k (store s obj)) \<rparr>"
  show ?case
  proof (cases i)
    case 0
    from Cons.prems(1) have "obj \<notin> set objs" by simp
    then have "store (updateCriticalFrom fr cam (Suc k) objs ?s1) obj = store ?s1 obj"
      by (rule updateCriticalFrom_other)
    with 0 show ?thesis by simp
  next
    case (Suc j)
    with Cons.prems have j: "j < length objs" and d: "distinct objs" by simp_all
    from Cons.prems(1) j have ne: "objs ! j \<noteq> obj" by auto
    from Cons.IH [OF d j, of "Suc k" ?s1] ne Suc show ?thesis by simp
  qed
qed

lemma updateCritical_arrays:
  "activeElements (updateCritical fr cam s) = activeElements s"
  "inactiveElements (updateCritical fr cam s) = inactiveElements s"
  unfolding updateCritical_def by (subst updateCriticalFrom_shape, simp)+

lemma finalAlpha_in_range: "z \<le> 1 \<Longrightarrow> finalAlpha life z = sin (life * pi) * (1 - z) * 0.9"
  by (simp add: finalAlpha_def Let_def)

lemma overlay_visibility_step:
  assumes "distinct (activeElements s)" and "cullingEnabled s"
    and "i < length (activeElements s)"
    and "vis_ok (store s (activeElements s ! i))"
    and "cam (mesh_position (store (updateCritical fr cam s) (activeElements s ! i))) = (wx, wy, wz)"
  shows "(let before = store s (activeElements s ! i);
              after = store (updateCritical fr cam s) (activeElements s ! i);
              alpha = sin (ud_life before * pi) * (1 - wz) * 0.9
          in activeElements (updateCritical fr cam s) = activeElements s \<and>
             inactiveElements (updateCritical fr cam s) = inactiveElements s \<and>
             isActive after = isActive before \<and>
             el_innerHTML after = el_innerHTML before \<and>
             ud_life after = ud_life before \<and>
             vis_ok after \<and>
             (wz > 1 \<or> wz < - 1 \<longrightarrow> \<not> ud_isVisible after \<and> el_display after = ''none'') \<and>
             (- 1 \<le> wz \<and> wz \<le> 1 \<and> alpha \<le> 0.1 \<longrightarrow>
                \<not> ud_isVisible after \<and> el_display after = ''none'') \<and>
             (- 1 \<le> wz \<and> wz \<le> 1 \<and> alpha > 0.1 \<longrightarrow>
                ud_isVisible after \<and> el_display after = ''block'' \<and> el_opacity after = alpha))"
proof -
  define before where "before = store s (activeElements s ! i)"
  define after where "after = store (updateCritical fr cam s) (activeElements s ! i)"
  define alpha where "alpha = sin (ud_life before * pi) * (1 - wz) * 0.9"
  have a: "after = criticalStep True fr cam i before"
    using updateCriticalFrom_nth [OF assms(1) assms(3), of fr cam 0 s] assms(2)
    by (simp add: after_def before_def updateCritical_def)
  have cam: "cam (mesh_position (criticalStep True fr cam i before)) = (wx, wy, wz)"
    using assms(5) a by (simp add: after_def)
  have ok: "el_display before = (if ud_isVisible before then ''block'' else ''none'')"
    using assms(4) by (simp add: vis_ok_def before_def)
  have keep: "isActive after = isActive before" "el_innerHTML after = el_innerHTML before"
    "ud_life after = ud_life before"
    by (simp_all add: a criticalStep_keeps)
  have culled: "wz > 1 \<or> wz < - 1 \<longrightarrow> \<not> ud_isVisible after \<and> el_display after = ''none''"
    using criticalStep_culled [of cam fr i before wx wy wz, OF cam] ok by (simp add: a)
  have al: "wz \<le> 1 \<Longrightarrow> finalAlpha (ud_life before) wz = alpha"
    by (simp add: finalAlpha_in_range alpha_def)
  have low: "- 1 \<le> wz \<and> wz \<le> 1 \<and> alpha \<le> 0.1 \<longrightarrow>
                \<not> ud_isVisible after \<and> el_display after = ''none''"
  proof
    assume h: "- 1 \<le> wz \<and> wz \<le> 1 \<and> alpha \<le> 0.1"
    then have f: "finalAlpha (ud_life before) wz \<le> 0.1" and r: "- 1 \<le> wz" "wz \<le> 1"
      using al by simp_all
    from criticalStep_shown(1) [of cam fr i before wx wy wz, OF cam r] f have "\<not> ud_isVisible after" by (simp add: a)
    moreover from criticalStep_shown(4) [of cam fr i before wx wy wz, OF cam r f] ok have "el_display after = ''none''"
      by (simp add: a)
    ultimately show "\<not> ud_isVisible after \<and> el_display after = ''none''" by simp
  qed
  have high: "- 1 \<le> wz \<and> wz \<le> 1 \<and> alpha > 0.1 \<longrightarrow>
                ud_isVisible after \<and> el_display after = ''block'' \<and> el_opacity after = alpha"
  proof
    assume h: "- 1 \<le> wz \<and> wz \<le> 1 \<and> alpha > 0.1"
    then have f: "finalAlpha (ud_life before) wz > 0.1" and r: "- 1 \<le> wz" "wz \<le> 1"
      and e: "finalAlpha (ud_life before) wz = alpha"
      using al by simp_all
    from criticalStep_shown(1) [of cam fr i before wx wy wz, OF cam r] f have "ud_isVisible after" by (simp add: a)
    moreover from criticalStep_shown(3) [of cam fr i before wx wy wz, OF cam r f] ok have "el_display after = ''block''"
      by (simp add: a)
    moreover from criticalStep_shown(2) [of cam fr i before wx wy wz, OF cam r f] e have "el_opacity after = alpha"
      by (simp add: a)
    ultimately show "ud_isVisible after \<and> el_display after = ''block'' \<and> el_opacity after = alpha"
      by simp
  qed
  have range: "wz > 1 \<or> wz < - 1 \<or> (- 1 \<le> wz \<and> wz \<le> 1 \<and> alpha \<le> 0.1)
      \<or> (- 1 \<le> wz \<and> wz \<le> 1 \<and> alpha > 0.1)" by linarith
  have vok: "vis_ok after"
    using range culled low high by (auto simp: vis_ok_def)
  show ?thesis
    unfolding Let_def before_def [symmetric] after_def [symmetric] alpha_def [symmetric]
    using updateCritical_arrays [of fr cam s] keep vok culled low high by simp
qed

subsection \<open>Displayed exactly when visible\<close>

lemma vis_ok_criticalStep: "vis_ok x \<Longrightarrow> vis_ok (criticalStep c fr cam k x)"
  by (auto simp: vis_ok_def criticalStep_def Let_def split: prod.splits if_splits)

lemma vis_ok_lifeStep: "vis_ok (lifeStep x) = vis_ok x"
  by (simp add: vis_ok_def lifeStep_def Let_def)

lemma vis_inv_store:
  assumes "vis_inv s" and "\<forall>r. vis_ok (g r)"
  shows "vis_inv (s\<lparr> store := g \<rparr>)"
  using assms by (simp add: vis_inv_def)

lemma updateContentFrom_vis:
  "\<forall>r. vis_ok (store s r) \<Longrightarrow> vis_ok (store (updateContentFrom now k objs s) r)"
  by (induction objs arbitrary: k s) (simp_all add: updateElementContent_def vis_ok_def)

lemma updateNonCriticalFrom_vis:
  "\<forall>r. vis_ok (store s r) \<Longrightarrow> vis_ok (store (updateNonCriticalFrom objs s) r)"
  by (induction objs arbitrary: s) (simp_all add: vis_ok_lifeStep)

lemma updateCriticalFrom_vis:
  "\<forall>r. vis_ok (store s r) \<Longrightarrow> vis_ok (store (updateCriticalFrom fr cam k objs s) r)"
  by (induction objs arbitrary: k s) (simp_all add: vis_ok_criticalStep)

lemma vis_inv_updateContentFrom: "vis_inv s \<Longrightarrow> vis_inv (updateContentFrom now k objs s)"
  by (subst updateContentFrom_shape) (simp add: vis_inv_def updateContentFrom_vis)

lemma vis_inv_updateTextContent: "vis_inv s \<Longrightarrow> vis_inv (updateTextContent f now s)"
proof -
  assume "vis_inv s"
  then have "vis_inv (s\<lparr> currentMetrics := getDisplayMetrics f (vehicles s) \<rparr>)"
    by (simp add: vis_inv_def)
  then show ?thesis
    unfolding updateTextContent_def Let_def by (rule vis_inv_updateContentFrom)
qed

lemma vis_inv_updateNonCritical: "vis_inv s \<Longrightarrow> vis_inv (updateNonCritical s)"
  unfolding updateNonCritical_def
  by (subst updateNonCriticalFrom_shape) (simp add: vis_inv_def updateNonCriticalFrom_vis)

lemma vis_inv_updateCritical: "vis_inv s \<Longrightarrow> vis_inv (updateCritical fr cam s)"
  unfolding updateCritical_def
  by (subst updateCriticalFrom_shape) (simp add: vis_inv_def updateCriticalFrom_vis)

lemma vis_inv_update: "vis_inv s \<Longrightarrow> vis_inv (update fr s)"
proof -
  assume a: "vis_inv s"
  then have b: "vis_inv (s\<lparr> frameCount := frameCount s + 1 \<rparr>)" by (simp add: vis_inv_def)
  show ?thesis
    using a b by (simp add: update_def Let_def vis_inv_updateNonCritical vis_inv_updateCritical
        split: option.splits)
qed

lemma vis_inv_checkPerformance: "vis_inv s \<Longrightarrow> vis_inv (checkPerformance now s)"
  by (subst checkPerformance_shape) (simp add: vis_inv_def)

lemma vis_inv_releaseObject:
  assumes "vis_inv s"
  shows "vis_inv (releaseObject obj s)"
proof (cases "isActive (store s obj) \<and> obj \<in> set (activeElements s)")
  case True
  then have "releaseObject obj s =
     s\<lparr> store := (store s)(obj := (store s obj)\<lparr> isActive := False, el_display := ''none'',
                                                 ud_isVisible := False \<rparr>),
        activeElements := remove1 obj (activeElements s),
        inactiveElements := inactiveElements s @ [obj] \<rparr>"
    by (simp add: releaseObject_active)
  with assms show ?thesis by (simp add: vis_inv_def vis_ok_def)
next
  case False
  show ?thesis
  proof (cases "isActive (store s obj)")
    case True
    with False have "obj \<notin> set (activeElements s)" by simp
    then have "indexOf (activeElements s) obj = - 1" by (rule indexOf_absent)
    with True assms show ?thesis
      by (simp add: releaseObject_def Let_def vis_inv_def vis_ok_def)
  next
    case False
    with assms show ?thesis by (simp add: releaseObject_inactive)
  qed
qed

lemma vis_inv_getActiveObject:
  assumes "vis_inv s" and "pool_inv s"
  shows "vis_inv (snd (getActiveObject s))"
proof (cases "inactiveElements s" rule: rev_cases)
  case Nil
  with assms show ?thesis by (simp add: getActiveObject_empty)
next
  case (snoc ys x)
  from assms(2) snoc have "x \<notin> set (activeElements s)" by (auto simp: pool_inv_def)
  with assms(1) snoc show ?thesis
    by (simp add: getActiveObject_def Let_def vis_inv_def vis_ok_def)
qed

lemma releaseExcess_vis:
  assumes "pool_inv s" and "0 \<le> textCount s" and "vis_inv s"
  shows "\<exists>s'. releaseExcess s = Some (Inr s') \<and> vis_inv s'"
  using assms
proof (induction "length (activeElements s)" arbitrary: s)
  case 0
  then show ?case by (subst releaseExcess.simps) simp
next
  case (Suc n)
  show ?case
  proof (cases "int (length (activeElements s)) > textCount s")
    case False
    with Suc.prems show ?thesis by (subst releaseExcess.simps) simp
  next
    case True
    from Suc.hyps(2) have ne: "activeElements s \<noteq> []" by auto
    let ?x = "last (activeElements s)"
    let ?s1 = "releaseObject ?x s"
    from ne have mem: "?x \<in> set (activeElements s)" by simp
    with Suc.prems(1) have act: "isActive (store s ?x)" by (simp add: pool_inv_def)
    have s1: "?s1 = s\<lparr> store := (store s)(?x := (store s ?x)\<lparr> isActive := False,
                  el_display := ''none'', ud_isVisible := False \<rparr>),
                activeElements := remove1 ?x (activeElements s),
                inactiveElements := inactiveElements s @ [?x] \<rparr>"
      by (rule releaseObject_active [OF act mem])
    have len: "n = length (activeElements ?s1)"
      using mem Suc.hyps(2) by (simp add: s1 length_remove1)
    have inv1: "pool_inv ?s1" using Suc.prems(1) by (rule pool_inv_releaseObject)
    have tc1: "0 \<le> textCount ?s1" using Suc.prems(2) by (simp add: s1)
    have v1: "vis_inv ?s1" using Suc.prems(3) by (rule vis_inv_releaseObject)
    from Suc.hyps(1) [OF len inv1 tc1 v1]
    obtain s' where r: "releaseExcess ?s1 = Some (Inr s')" and v: "vis_inv s'" by blast
    have "releaseExcess s = Some (Inr s')"
      using True ne r by (subst releaseExcess.simps) simp
    with v show ?thesis by blast
  qed
qed

lemma activateNeeded_vis:
  assumes "pool_inv s" and "vis_inv s"
  shows "vis_inv (activateNeeded s)"
  using assms
proof (induction s rule: activateNeeded.induct)
  case (1 s)
  show ?case
  proof (cases "int (length (activeElements s)) < min (textCount s) (int (length (currentMetrics s)))")
    case False
    then have "activateNeeded s = s" by (subst activateNeeded.simps) auto
    with "1.prems" show ?thesis by simp
  next
    case True
    note lt = True
    show ?thesis
    proof (cases "inactiveElements s" rule: rev_cases)
      case Nil
      then have "activateNeeded s = s"
        using lt by (subst activateNeeded.simps) (simp add: getActiveObject_empty)
      with "1.prems" show ?thesis by simp
    next
      case (snoc ys x)
      let ?s1 = "s\<lparr> inactiveElements := ys,
           store := (store s)(x := (store s x)\<lparr> isActive := True \<rparr>),
           activeElements := activeElements s @ [x] \<rparr>"
      let ?s2 = "?s1\<lparr> store := (store ?s1)(x := (store ?s1 x)\<lparr> el_display := ''block'',
                        ud_isVisible := True \<rparr>) \<rparr>"
      have g: "getActiveObject s = (Some x, ?s1)"
        using snoc by (simp add: getActiveObject_def Let_def)
      have "pool_inv (snd (getActiveObject s))" using "1.prems"(1) by (rule pool_inv_getActiveObject)
      then have inv1: "pool_inv ?s1" by (simp only: g snd_conv)
      have inv2: "pool_inv ?s2" using inv1 by (rule pool_inv_store) simp
      from "1.prems"(1) snoc have nx: "x \<notin> set (activeElements s)" by (auto simp: pool_inv_def)
      have v2: "vis_inv ?s2"
        using "1.prems"(2) nx by (simp add: vis_inv_def vis_ok_def)
      have step: "activateNeeded s = activateNeeded ?s2"
        using lt g by (subst activateNeeded.simps) simp
      have "vis_inv (activateNeeded ?s2)"
        using "1.IH" [OF lt g [symmetric] refl inv2 v2] .
      then show ?thesis by (simp only: step)
    qed
  qed
qed

lemma vis_inv_updateDisplayMetrics:
  assumes "sys_inv s" and "vis_inv s" and "updateDisplayMetrics f now s = Some (Inr s')"
  shows "vis_inv s'"
proof -
  let ?s1 = "s\<lparr> currentMetrics := getDisplayMetrics f (vehicles s) \<rparr>"
  from assms(1) have p1: "pool_inv ?s1" and t1: "0 \<le> textCount ?s1"
    by (simp_all add: sys_inv_def pool_inv_def)
  from assms(2) have v1: "vis_inv ?s1" by (simp add: vis_inv_def)
  from releaseExcess_returns [OF p1 t1] obtain s2 where
    r: "releaseExcess ?s1 = Some (Inr s2)" and p2: "pool_inv s2" by blast
  from releaseExcess_vis [OF p1 t1 v1] r have v2: "vis_inv s2" by simp
  have v3: "vis_inv (activateNeeded s2)" using p2 v2 by (rule activateNeeded_vis)
  have "s' = updateContentFrom now 0 (activeElements (activateNeeded s2)) (activateNeeded s2)"
    using assms(3) r by (simp add: updateDisplayMetrics_def Let_def)
  with v3 show ?thesis by (simp add: vis_inv_updateContentFrom)
qed

lemma perform_vis:
  assumes "sys_inv s" and "vis_inv s" and "perform a s = Some (Inr s')"
  shows "vis_inv s'"
proof (cases a)
  case (Tick r)
  with assms show ?thesis by (auto simp: vis_inv_def)
next
  case (UpdateTextContent f now)
  with assms show ?thesis by (auto simp: vis_inv_updateTextContent)
next
  case (CheckPerformance now)
  with assms show ?thesis by (auto simp: vis_inv_checkPerformance)
next
  case (Update fr)
  with assms show ?thesis by (auto simp: vis_inv_update)
next
  case UpdateNonCritical
  with assms show ?thesis by (auto simp: vis_inv_updateNonCritical)
next
  case GetActiveObject
  with assms show ?thesis by (auto simp: vis_inv_getActiveObject sys_inv_def)
next
  case (ReleaseObject obj)
  with assms show ?thesis by (auto simp: vis_inv_releaseObject)
next
  case (UpdateDisplayMetrics f now)
  with assms vis_inv_updateDisplayMetrics [of s f now s'] show ?thesis by simp
qed

lemma run_vis:
  assumes "sys_inv s" and "vis_inv s" and "run acts s = Some (Inr s')"
  shows "vis_inv s'"
  using assms
proof (induction acts arbitrary: s)
  case Nil
  then show ?case by simp
next
  case (Cons a acts)
  from perform_inv [OF Cons.prems(1), of a] obtain s1 where
    p: "perform a s = Some (Inr s1)" and i: "sys_inv s1" by blast
  from perform_vis [OF Cons.prems(1,2) p] have v: "vis_inv s1" .
  from Cons.prems(3) p have "run acts s1 = Some (Inr s')" by simp
  from Cons.IH [OF i v this] show ?case .
qed

lemma createObjectPoolFrom_store:
  "store (createObjectPoolFrom r i k s) x
     = (if i \<le> x \<and> x < i + k then createPooledObject (r x) x else store s x)"
proof (induction k arbitrary: i s)
  case 0
  show ?case by auto
next
  case (Suc k)
  show ?case by (simp only: createObjectPoolFrom.simps Suc.IH) auto
qed

lemma updateTextContent_store_idle:
  "activeElements s = [] \<Longrightarrow> store (updateTextContent f now s) = store s"
  by (simp add: updateTextContent_def Let_def)

lemma construct_store:
  "store (construct n f now pnow ir mr) x
     = (if x < 32 then createPooledObject (mr x) x else unallocated)"
proof -
  let ?s0 = "\<lparr> nav = n, textCount = getOptimalTextCount n, poolSize = 32,
                 cullingEnabled = True, store = (\<lambda>_. unallocated), textElementPool = [],
                 activeElements = [], inactiveElements = [],
                 vehicles = initializeFleet now ir, currentMetrics = [], frameCount = 0,
                 lastFPSCheck = pnow, currentFPS = Num 60 \<rparr>"
  have a: "activeElements (createObjectPool mr ?s0) = []"
    by (simp add: createObjectPool_pool)
  have b: "store (createObjectPool mr ?s0) x
      = (if x < 32 then createPooledObject (mr x) x else unallocated)"
    by (simp add: createObjectPool_def createObjectPoolFrom_store)
  have "store (construct n f now pnow ir mr) = store (createObjectPool mr ?s0)"
    unfolding construct_def Let_def using a by (rule updateTextContent_store_idle)
  with b show ?thesis by simp
qed

lemma construct_culling: "cullingEnabled (construct n f now pnow ir mr)"
proof -
  have a: "cullingEnabled (updateTextContent f now s) = cullingEnabled s" for s
    unfolding updateTextContent_def Let_def by (subst updateContentFrom_shape) simp
  have b: "cullingEnabled (createObjectPool mr s) = cullingEnabled s" for s
    unfolding createObjectPool_def by (subst createObjectPoolFrom_shape) simp
  show ?thesis by (simp add: construct_def Let_def a b)
qed

lemma vis_inv_construct: "vis_inv (construct n f now pnow ir mr)"
  by (simp add: vis_inv_def construct_culling construct_pool construct_store vis_ok_def
      createPooledObject_def unallocated_def Let_def)

text \<open>
  C2, as the code has it. In the instance after any sequence of calls since construction,
  for the active object at any index, one critical update leaves both arrays and the
  object's flag, content and life phase as they are. With \<open>z\<close> the projected depth of the
  object: if \<open>z\<close> is outside \<open>[-1,1]\<close> the element is hidden; otherwise the alpha is
  \<open>sin (life * pi) * (1 - z) * 0.9\<close>, with no clamping of \<open>z\<close> at \<open>0\<close>, and the element is
  hidden when the alpha is at most \<open>0.1\<close> and shown with that opacity when it is above.
\<close>

theorem overlay_visibility:
  assumes "run acts (construct n f now pnow ir mr) = Some (Inr s)"
    and "i < length (activeElements s)"
    and "cam (mesh_position (store (updateCritical fr cam s) (activeElements s ! i))) = (wx, wy, wz)"
  shows "(let before = store s (activeElements s ! i);
              after = store (updateCritical fr cam s) (activeElements s ! i);
              alpha = sin (ud_life before * pi) * (1 - wz) * 0.9
          in activeElements (updateCritical fr cam s) = activeElements s \<and>
             inactiveElements (updateCritical fr cam s) = inactiveElements s \<and>
             isActive after = isActive before \<and>
             el_innerHTML after = el_innerHTML before \<and>
             ud_life after = ud_life before \<and>
             vis_ok after \<and>
             (wz > 1 \<or> wz < - 1 \<longrightarrow> \<not> ud_isVisible after \<and> el_display after = ''none'') \<and>
             (- 1 \<le> wz \<and> wz \<le> 1 \<and> alpha \<le> 0.1 \<longrightarrow>
                \<not> ud_isVisible after \<and> el_display after = ''none'') \<and>
             (- 1 \<le> wz \<and> wz \<le> 1 \<and> alpha > 0.1 \<longrightarrow>
                ud_isVisible after \<and> el_display after = ''block'' \<and> el_opacity after = alpha))"
proof -
  have "vis_inv s"
    using sys_inv_construct vis_inv_construct assms(1) by (rule run_vis)
  then have v: "distinct (activeElements s)" "cullingEnabled s" "vis_ok (store s (activeElements s ! i))"
    by (simp_all add: vis_inv_def)
  show ?thesis
    using v(1) v(2) assms(2) v(3) assms(3)
    by (rule overlay_visibility_step [where s = s and i = i and cam = cam and fr = fr
          and wx = wx and wy = wy and wz = wz])
qed

lemma acquired_sample:
  "run [GetActiveObject] (construct desktop plain_fmt 0 0 (\<lambda>i. sample_init) (\<lambda>i. sample_mesh))
     = Some (Inr (snd (getActiveObject sample_particles)))"
  "activeElements (snd (getActiveObject sample_particles)) = [31]"
  "ud_life (store (snd (getActiveObject sample_particles)) 31) = 1 / 2"
  "isActive (store (snd (getActiveObject sample_particles)) 31)"
  "\<not> ud_isVisible (store (snd (getActiveObject sample_particles)) 31)"
  "el_display (store (snd (getActiveObject sample_particles)) 31) = ''none''"
proof -
  have i: "inactiveElements sample_particles = [0..<32]"
    and a: "activeElements sample_particles = []"
    by (simp_all add: sample_particles_def construct_pool del: upt_Suc)
  have ne: "inactiveElements sample_particles \<noteq> []" and l: "last (inactiveElements sample_particles) = 31"
    by (simp_all add: i)
  have st: "store sample_particles 31 = createPooledObject sample_mesh 31"
    by (simp add: sample_particles_def construct_store)
  show "run [GetActiveObject] (construct desktop plain_fmt 0 0 (\<lambda>i. sample_init) (\<lambda>i. sample_mesh))
     = Some (Inr (snd (getActiveObject sample_particles)))"
    by (simp add: sample_particles_def)
  show "activeElements (snd (getActiveObject sample_particles)) = [31]"
    by (simp add: getActiveObject_nonempty [OF ne] l a)
  show "ud_life (store (snd (getActiveObject sample_particles)) 31) = 1 / 2"
    "isActive (store (snd (getActiveObject sample_particles)) 31)"
    "\<not> ud_isVisible (store (snd (getActiveObject sample_particles)) 31)"
    "el_display (store (snd (getActiveObject sample_particles)) 31) = ''none''"
    by (simp_all add: getActiveObject_nonempty [OF ne] l st createPooledObject_def Let_def
        sample_mesh_def)
qed

theorem overlay_visibility_witness:
  "ud_isVisible (store (updateCritical sample_frame near_camera (snd (getActiveObject sample_particles))) 31) \<and>
   el_display (store (updateCritical sample_frame near_camera (snd (getActiveObject sample_particles))) 31) = ''block'' \<and>
   el_opacity (store (updateCritical sample_frame near_camera (snd (getActiveObject sample_particles))) 31) = 9 / 5 \<and>
   isActive (store (updateCritical sample_frame near_camera (snd (getActiveObject sample_particles))) 31) \<and>
   activeElements (updateCritical sample_frame near_camera (snd (getActiveObject sample_particles))) = [31]"
proof -
  let ?s = "snd (getActiveObject sample_particles)"
  have c: "near_camera (mesh_position (store (updateCritical sample_frame near_camera ?s)
      (activeElements ?s ! 0))) = (0, 0, - 1)"
    by (simp add: near_camera_def)
  have i: "0 < length (activeElements ?s)" by (simp add: acquired_sample)
  from overlay_visibility [where s = ?s and i = 0 and fr = sample_frame
      and cam = near_camera and wx = 0 and wy = 0 and wz = "- 1", OF acquired_sample(1) i c]
  show ?thesis
    by (simp add: acquired_sample Let_def)
qed

text \<open>
  An object acquired right after construction is half way into its life cycle. At depth
  \<open>-1\<close> the formula with the clamped depth gives \<open>0.9\<close>; the code sets the opacity \<open>1.8\<close>.
\<close>

theorem alpha_not_clamped_below:
  "activeElements (snd (getActiveObject sample_particles)) = [31] \<and>
   ud_life (store (snd (getActiveObject sample_particles)) 31) = 1 / 2 \<and>
   near_camera (mesh_position
      (store (updateCritical sample_frame near_camera (snd (getActiveObject sample_particles))) 31))
     = (0, 0, - 1) \<and>
   spec_alpha (1 / 2) (- 1) = 9 / 10 \<and>
   ud_isVisible (store (updateCritical sample_frame near_camera (snd (getActiveObject sample_particles))) 31) \<and>
   el_opacity (store (updateCritical sample_frame near_camera (snd (getActiveObject sample_particles))) 31) = 9 / 5"
proof -
  let ?s = "snd (getActiveObject sample_particles)"
  let ?x = "store ?s 31"
  have cu: "cullingEnabled ?s"
    using construct_culling [of desktop plain_fmt 0 0 "\<lambda>i. sample_init" "\<lambda>i. sample_mesh"]
    by (subst getActiveObject_shape) (simp add: sample_particles_def)
  have st: "store (updateCritical sample_frame near_camera ?s) 31
      = criticalStep True sample_frame near_camera 0 ?x"
    using updateCriticalFrom_nth [of "[31]" 0 sample_frame near_camera 0 ?s] cu
    by (simp add: updateCritical_def acquired_sample)
  have cam: "near_camera (mesh_position (criticalStep True sample_frame near_camera 0 ?x)) = (0, 0, - 1)"
    by (simp add: near_camera_def)
  have fa: "finalAlpha (ud_life ?x) (- 1) = 9 / 5"
    by (simp add: finalAlpha_def Let_def acquired_sample)
  have gt: "finalAlpha (ud_life ?x) (- 1) > 0.1" unfolding fa by simp
  have vis: "ud_isVisible (criticalStep True sample_frame near_camera 0 ?x)"
    using criticalStep_shown(1) [of near_camera sample_frame 0 ?x 0 0 "- 1", OF cam] gt by simp
  have op: "el_opacity (criticalStep True sample_frame near_camera 0 ?x) = 9 / 5"
    using criticalStep_shown(2) [of near_camera sample_frame 0 ?x 0 0 "- 1", OF cam _ _ gt] fa by simp
  have sp: "spec_alpha (1 / 2) (- 1) = 9 / 10"
    by (simp add: spec_alpha_def)
  show ?thesis
    unfolding st using vis op sp cam by (simp add: acquired_sample)
qed

end
